theory Spec2Isabelle
  imports Main "HOL-Library.Word" "HOL-Library.Multiset"
begin

section \<open>Common data\<close>

text \<open>
  Content identifiers (\<^verbatim>\<open>cid.Cid\<close>), peer identifiers (\<^verbatim>\<open>peer.ID\<close>) and wallet
  addresses (\<^verbatim>\<open>address.Address\<close>) are opaque byte strings to the code modelled here;
  only their equality is used.
\<close>

type_synonym cid = string
type_synonym peer_ID = string
type_synonym address = string

text \<open>
  Go \<^verbatim>\<open>error\<close> values. \<^verbatim>\<open>fmt.Errorf\<close> with a constant text, with a \<^verbatim>\<open>%d\<close> exit code
  and with a wrapped \<^verbatim>\<open>%v\<close> error are kept apart; a run-time panic is an error value too.
  The Go \<^verbatim>\<open>nil\<close> error is \<open>None\<close> of \<open>error option\<close>.
\<close>

datatype error =
    Errorf string
  | ErrorfExit string int
  | ErrorfWrap string error
  | Panic string

section \<open>Replication: authorization and validation\<close>

text \<open>\<^verbatim>\<open>supply/regions.go\<close>: a region is a name and a \<^verbatim>\<open>uint64\<close> code.\<close>

record Region =
  Name :: string
  Code :: "64 word"

definition GlobalRegion :: "64 word" where "GlobalRegion = 0"
definition AsiaRegion :: "64 word" where "AsiaRegion = 1"
definition AfricaRegion :: "64 word" where "AfricaRegion = 2"
definition SouthAmericaRegion :: "64 word" where "SouthAmericaRegion = 3"
definition NorthAmericaRegion :: "64 word" where "NorthAmericaRegion = 4"
definition EuropeRegion :: "64 word" where "EuropeRegion = 5"
definition OceaniaRegion :: "64 word" where "OceaniaRegion = 6"
definition CustomRegion :: "64 word" where "CustomRegion = - 1"

definition asia :: Region where
  "asia = \<lparr>Name = ''Asia'', Code = AsiaRegion\<rparr>"

definition africa :: Region where
  "africa = \<lparr>Name = ''Africa'', Code = AfricaRegion\<rparr>"

text \<open>\<^verbatim>\<open>Request\<close> describes the content to pull; it doubles as the transport voucher.\<close>

record Request =
  PayloadCID :: cid
  Size :: "64 word"

text \<open>
  \<^verbatim>\<open>datatransfer.Voucher\<close> is an interface: a voucher handed to a validator is a
  \<^verbatim>\<open>Request\<close> or a value of some other registered type (named by its type identifier).
\<close>

datatype Voucher = RequestVoucher Request | OtherVoucher string

text \<open>\<^verbatim>\<open>ipld.Node\<close> selectors and \<^verbatim>\<open>datatransfer.VoucherResult\<close> are opaque.\<close>

type_synonym ipld_Node = string
type_synonym VoucherResult = "string option"

text \<open>
  The fields of \<^verbatim>\<open>Replication\<close> that the modelled methods read or write:
  the regions \<^verbatim>\<open>rgs\<close>, the scheme set and the in-memory authorization table
  \<^verbatim>\<open>pulls map[cid.Cid]*peer.Set\<close>.
\<close>

record Replication =
  rgs :: "Region list"
  schemes :: "peer_ID set"
  pulls :: "cid \<rightharpoonup> peer_ID set"

definition NewReplication :: "Region list \<Rightarrow> Replication" where
  "NewReplication regions = \<lparr>rgs = regions, schemes = {}, pulls = Map.empty\<rparr>"

definition JoinScheme :: "Replication \<Rightarrow> peer_ID \<Rightarrow> Replication" where
  "JoinScheme r p = r\<lparr>schemes := insert p (schemes r)\<rparr>"

definition LeaveScheme :: "Replication \<Rightarrow> peer_ID \<Rightarrow> Replication" where
  "LeaveScheme r p = r\<lparr>schemes := schemes r - {p}\<rparr>"

text \<open>
  \<^verbatim>\<open>AuthorizePull(k, p)\<close>: add \<open>p\<close> to the set stored under \<open>k\<close>, creating the set when
  the key is absent.
\<close>

definition AuthorizePull :: "Replication \<Rightarrow> cid \<Rightarrow> peer_ID \<Rightarrow> Replication" where
  "AuthorizePull r k p =
     (case pulls r k of
        Some pset \<Rightarrow> r\<lparr>pulls := (pulls r)(k \<mapsto> insert p pset)\<rparr>
      | None \<Rightarrow> r\<lparr>pulls := (pulls r)(k \<mapsto> insert p {})\<rparr>)"

text \<open>\<^verbatim>\<open>ValidatePush\<close> returns an error whatever its arguments are.\<close>

definition ValidatePush ::
  "Replication \<Rightarrow> peer_ID \<Rightarrow> Voucher \<Rightarrow> cid \<Rightarrow> ipld_Node \<Rightarrow> error + VoucherResult" where
  "ValidatePush r sender voucher baseCid selector = Inl (Errorf ''no pushed accepted'')"

text \<open>
  \<^verbatim>\<open>ValidatePull\<close> looks \<open>baseCid\<close> up in \<^verbatim>\<open>pulls\<close> and tests the receiver for membership.
  The source reads neither the voucher nor the selector.
\<close>

definition ValidatePull ::
  "Replication \<Rightarrow> peer_ID \<Rightarrow> Voucher \<Rightarrow> cid \<Rightarrow> ipld_Node \<Rightarrow> error + VoucherResult" where
  "ValidatePull r receiver voucher baseCid selector =
     (case pulls r baseCid of
        None \<Rightarrow> Inl (Errorf ''unknown CID'')
      | Some pset \<Rightarrow>
          if receiver \<notin> pset then Inl (Errorf ''not authorized'') else Inr None)"

text \<open>A run of \<^verbatim>\<open>AuthorizePull\<close> calls, in call order.\<close>

fun authorizeAll :: "Replication \<Rightarrow> (cid \<times> peer_ID) list \<Rightarrow> Replication" where
  "authorizeAll r [] = r"
| "authorizeAll r ((k, p) # calls) = authorizeAll (AuthorizePull r k p) calls"

section \<open>Replication: dispatch\<close>

text \<open>\<^verbatim>\<open>PRecord\<close> maps a provider to the content it stores.\<close>

record PRecord =
  Provider :: peer_ID
  PRecord_PayloadCID :: cid

text \<open>
  \<^verbatim>\<open>DispatchOptions\<close>: \<^verbatim>\<open>BackoffMin\<close> is a \<^verbatim>\<open>time.Duration\<close> (nanoseconds), the other two
  are Go \<^verbatim>\<open>int\<close>s and may be zero or negative.
\<close>

record DispatchOptions =
  BackoffMin :: int
  BackoffAttemps :: int
  RF :: int

definition DefaultDispatchOptions :: DispatchOptions where
  "DefaultDispatchOptions = \<lparr>BackoffMin = 2 * 1000000000, BackoffAttemps = 4, RF = 7\<rparr>"

text \<open>
  What the event subscriber reads from the \<^verbatim>\<open>datatransfer.ChannelState\<close> it is handed:
  the status, the base CID and the recipient of the transfer.
\<close>

datatype Status =
  Requested | Ongoing | TransferFinished | Completing | Completed | Failed | Cancelled

record ChannelState =
  Status :: Status
  BaseCID :: cid
  Recipient :: peer_ID

text \<open>
  The subscriber of \<^verbatim>\<open>Dispatch\<close>: a transfer in status \<^verbatim>\<open>Completed\<close> whose base CID is
  the request's payload CID puts a \<^verbatim>\<open>PRecord\<close> for its recipient on \<^verbatim>\<open>resChan\<close>; any
  other event puts nothing there.
\<close>

definition onTransferEvent :: "Request \<Rightarrow> ChannelState \<Rightarrow> PRecord option" where
  "onTransferEvent req chState =
     (if Status chState = Completed then
        (let root = BaseCID chState in
         if root \<noteq> PayloadCID req then None
         else Some \<lparr>Provider = Recipient chState, PRecord_PayloadCID = root\<rparr>)
      else None)"

text \<open>
  Modelled from the spec: \<^verbatim>\<open>PeerMgr\<close> and its method \<^verbatim>\<open>Peers\<close>, whose source file is not
  among the sources. The manager tracks connected peers with their advertised region sets;
  \<^verbatim>\<open>Peers(n, regions, exclude)\<close> returns up to \<open>n\<close> peer ids whose region set intersects
  \<open>regions\<close> and that are not in \<open>exclude\<close>; regions are equal when their codes are. The
  table is a list of entries keyed by peer id (the first entry of a peer counts), and the
  order of the list stands for the order in which the manager happens to enumerate them.
\<close>

type_synonym PeerMgr = "(peer_ID \<times> Region list) list"

text \<open>
  Modelled from the spec: two region sets intersect when they share a region code (spec 3:
  equality of regions is by code).
\<close>

definition regionsIntersect :: "Region list \<Rightarrow> Region list \<Rightarrow> bool" where
  "regionsIntersect xs ys = list_ex (\<lambda>x. list_ex (\<lambda>y. Code x = Code y) ys) xs"

text \<open>
  Modelled from the spec: a peer matches when it has an entry whose region set intersects
  the given regions.
\<close>

definition matchesRegions :: "PeerMgr \<Rightarrow> Region list \<Rightarrow> peer_ID \<Rightarrow> bool" where
  "matchesRegions pm regions p =
     (case map_of pm p of None \<Rightarrow> False | Some prs \<Rightarrow> regionsIntersect prs regions)"

text \<open>
  Modelled from the spec: \<^verbatim>\<open>PeerMgr.Peers(n, regions, exclude)\<close> (4.2), up to \<open>n\<close> peers
  of the table that match the regions and are not excluded, each once.
\<close>

definition Peers :: "PeerMgr \<Rightarrow> int \<Rightarrow> Region list \<Rightarrow> peer_ID set \<Rightarrow> peer_ID list" where
  "Peers pm n regions exclude =
     take (nat n) (filter (\<lambda>p. p \<notin> exclude \<and> matchesRegions pm regions p) (remdups (map fst pm)))"

text \<open>
  The world around one \<^verbatim>\<open>Dispatch\<close> run, attempt by attempt (attempts are numbered by
  \<^verbatim>\<open>b.Attempt()\<close>, from 0): the peer table at the moment the attempt asks for peers, how
  opening and writing the request stream to a peer goes, and the transport events whose
  records the loop takes from \<^verbatim>\<open>resChan\<close> before the attempt's timer fires. The backoff
  durations only decide how long a wait lasts, that is, which events fall into it.
  \<open>outReader\<close> says whether the caller of \<^verbatim>\<open>Dispatch\<close> keeps receiving from the channel
  it was handed, and \<open>chanLimit\<close> is the largest capacity for which the Go runtime of
  the platform at hand makes a channel of \<^verbatim>\<open>PRecord\<close>.
\<close>

datatype StreamOutcome = OpenFailed | WriteFailed | Written

record DispatchEnv =
  peersAt :: "nat \<Rightarrow> PeerMgr"
  streamAt :: "nat \<Rightarrow> peer_ID \<Rightarrow> StreamOutcome"
  eventsAt :: "nat \<Rightarrow> ChannelState list"
  outReader :: bool
  chanLimit :: int

text \<open>
  The variables of the dispatch goroutine: the \<^verbatim>\<open>Replication\<close> it works on, the seen set
  \<^verbatim>\<open>rcv\<close>, the attempt counter of the backoff \<^verbatim>\<open>b\<close>, the confirmation count \<^verbatim>\<open>n\<close>, the
  records sent on \<^verbatim>\<open>out\<close> so far and whether \<^verbatim>\<open>out\<close> is closed. \<open>sent_log\<close> records,
  for every peer \<^verbatim>\<open>sendAllRequests\<close> turned to, the attempt and what became of the stream.
\<close>

record DispatchState =
  repl :: Replication
  rcv :: "peer_ID set"
  b_attempt :: nat
  n_cnt :: int
  out_ch :: "PRecord list"
  out_closed :: bool
  sent_log :: "(nat \<times> peer_ID \<times> StreamOutcome) list"

text \<open>
  \<^verbatim>\<open>sendAllRequests\<close>: one stream per peer, in order; an error on opening or on writing
  moves on to the next peer and is not retried.
\<close>

fun sendAllRequests ::
  "(peer_ID \<Rightarrow> StreamOutcome) \<Rightarrow> nat \<Rightarrow> peer_ID list \<Rightarrow> (nat \<times> peer_ID \<times> StreamOutcome) list" where
  "sendAllRequests stream k [] = []"
| "sendAllRequests stream k (p # ps) =
     (case stream p of
        OpenFailed \<Rightarrow> (k, p, OpenFailed) # sendAllRequests stream k ps
      | WriteFailed \<Rightarrow> (k, p, WriteFailed) # sendAllRequests stream k ps
      | Written \<Rightarrow> (k, p, Written) # sendAllRequests stream k ps)"

text \<open>The loop "authorize the transfer": \<^verbatim>\<open>AuthorizePull\<close>, then \<^verbatim>\<open>rcv[p] = true\<close>.\<close>

fun authorizeProviders ::
  "cid \<Rightarrow> peer_ID list \<Rightarrow> Replication \<times> peer_ID set \<Rightarrow> Replication \<times> peer_ID set" where
  "authorizeProviders root [] (r, seen) = (r, seen)"
| "authorizeProviders root (p # ps) (r, seen) =
     authorizeProviders root ps (AuthorizePull r root p, insert p seen)"

text \<open>
  How one wait ends: the timer fires and the \<^verbatim>\<open>requests\<close> loop goes round again, the
  goroutine returns, or the goroutine stays parked in the send \<^verbatim>\<open>out <- r\<close>.
\<close>

datatype WaitOutcome = TimerFired | Returned | Blocked

text \<open>
  The inner \<^verbatim>\<open>select\<close> loop over the records that arrive before the timer fires. \<^verbatim>\<open>out\<close>
  was made with capacity \<^verbatim>\<open>RF\<close> and only the caller receives from it: the send
  \<^verbatim>\<open>out <- r\<close> goes through when the caller is receiving or the buffer has room (without a
  reader it holds every record sent so far), and parks the goroutine otherwise. A record
  that went through is counted, and the goroutine returns as soon as the count equals
  \<^verbatim>\<open>RF\<close>. When the records are used up the timer fires.
\<close>

fun waitResults ::
  "bool \<Rightarrow> int \<Rightarrow> PRecord list \<Rightarrow> DispatchState \<Rightarrow> DispatchState \<times> WaitOutcome" where
  "waitResults reader rf [] s = (s, TimerFired)"
| "waitResults reader rf (rec # recs) s =
     (if reader \<or> int (length (out_ch s)) < rf then
        (let s' = s\<lparr>out_ch := out_ch s @ [rec], n_cnt := n_cnt s + 1\<rparr>
         in if n_cnt s' = rf then (s', Returned) else waitResults reader rf recs s')
      else (s, Blocked))"

text \<open>
  One pass through the body of the \<^verbatim>\<open>requests\<close> loop, after the attempt check.
  \<^verbatim>\<open>b.Duration()\<close> advances the attempt counter when the timer is armed.
\<close>

definition attemptBody ::
  "DispatchEnv \<Rightarrow> Request \<Rightarrow> DispatchOptions \<Rightarrow> DispatchState \<Rightarrow> DispatchState \<times> WaitOutcome" where
  "attemptBody env req opt s =
     (let k = b_attempt s;
          providers = Peers (peersAt env k) (RF opt - n_cnt s) (rgs (repl s)) (rcv s);
          auth = authorizeProviders (PayloadCID req) providers (repl s, rcv s);
          sends = (if length providers > 0 then sendAllRequests (streamAt env k) k providers
                   else []);
          s1 = s\<lparr>repl := fst auth, rcv := snd auth, sent_log := sent_log s @ sends,
                 b_attempt := Suc k\<rparr>
      in waitResults (outReader env) (RF opt)
           (List.map_filter (onTransferEvent req) (eventsAt env k)) s1)"

lemma waitResults_attempt:
  "waitResults reader rf recs s = (s', oc) \<Longrightarrow> b_attempt s' = b_attempt s"
  by (induction recs arbitrary: s) (auto simp: Let_def split: if_splits)

lemma attemptBody_attempt:
  "attemptBody env req opt s = (s', oc) \<Longrightarrow> b_attempt s' = Suc (b_attempt s)"
  by (auto simp: attemptBody_def Let_def dest: waitResults_attempt)

text \<open>
  The \<^verbatim>\<open>requests\<close> loop: give up once the attempt counter exceeds \<^verbatim>\<open>BackoffAttemps\<close>,
  otherwise run the body and go round again when the timer fired. The deferred
  \<^verbatim>\<open>close(out)\<close> runs when the goroutine returns; a goroutine parked in \<^verbatim>\<open>out <- r\<close> does
  not return, and the channel stays open.
\<close>

function requestsLoop ::
  "DispatchEnv \<Rightarrow> Request \<Rightarrow> DispatchOptions \<Rightarrow> DispatchState \<Rightarrow> DispatchState" where
  "requestsLoop env req opt s =
     (if int (b_attempt s) > BackoffAttemps opt then s\<lparr>out_closed := True\<rparr>
      else (case attemptBody env req opt s of
              (s', Returned) \<Rightarrow> s'\<lparr>out_closed := True\<rparr>
            | (s', Blocked) \<Rightarrow> s'
            | (s', TimerFired) \<Rightarrow> requestsLoop env req opt s'))"
  by pat_completeness auto
termination
proof (relation "measure (\<lambda>(env, req, opt, s). nat (BackoffAttemps opt + 1 - int (b_attempt s)))",
    goal_cases)
  case 1
  show ?case by simp
next
  case 2
  then show ?case
    by (auto dest: attemptBody_attempt [OF sym])
qed

declare requestsLoop.simps [simp del]

text \<open>
  The goroutine starts with an empty seen set, a fresh backoff and no confirmations.
\<close>

definition initialState :: "Replication \<Rightarrow> DispatchState" where
  "initialState r = \<lparr>repl = r, rcv = {}, b_attempt = 0, n_cnt = 0, out_ch = [],
                     out_closed = False, sent_log = []\<rparr>"

text \<open>
  \<^verbatim>\<open>make(chan PRecord, opt.RF)\<close> panics with "makechan: size out of range" when the
  capacity is negative or the buffer is larger than the runtime allocates.
\<close>

definition makechanPanics :: "DispatchEnv \<Rightarrow> int \<Rightarrow> bool" where
  "makechanPanics env capacity \<longleftrightarrow> capacity < 0 \<or> chanLimit env < capacity"

text \<open>
  \<^verbatim>\<open>Dispatch\<close>: the two channels are made first, so a capacity \<^verbatim>\<open>make\<close> refuses panics
  in the caller before any goroutine is started. Otherwise the goroutine runs the loop
  from the initial state. The result is the state of the run when the goroutine has
  returned, with \<^verbatim>\<open>out\<close> closed, or when it is parked in \<^verbatim>\<open>out <- r\<close> with nobody to
  receive, with \<^verbatim>\<open>out\<close> open.
\<close>

definition Dispatch ::
  "DispatchEnv \<Rightarrow> Replication \<Rightarrow> Request \<Rightarrow> DispatchOptions \<Rightarrow> error + DispatchState" where
  "Dispatch env r req opt =
     (if makechanPanics env (RF opt) then Inl (Panic ''makechan: size out of range'')
      else Inr (requestsLoop env req opt (initialState r)))"

text \<open>
  The records that reach \<^verbatim>\<open>resChan\<close> during the wait of attempt \<open>k\<close>, and all that
  arrive during the waits of the attempts \<^verbatim>\<open>0 .. BackoffAttemps\<close>, in order.
\<close>

definition recordsAt :: "DispatchEnv \<Rightarrow> Request \<Rightarrow> nat \<Rightarrow> PRecord list" where
  "recordsAt env req k = List.map_filter (onTransferEvent req) (eventsAt env k)"

definition arrivals :: "DispatchEnv \<Rightarrow> Request \<Rightarrow> DispatchOptions \<Rightarrow> PRecord list" where
  "arrivals env req opt =
     concat (map (recordsAt env req) [0..<nat (BackoffAttemps opt + 1)])"

text \<open>
  The number of waits a dispatcher goes through that still needs \<open>need\<close> confirmations
  and stops either in the wait in which the last of them arrives or when the waits are
  used up; the argument lists the records of each wait to come.
\<close>

fun closingAttempt :: "nat \<Rightarrow> PRecord list list \<Rightarrow> nat" where
  "closingAttempt need [] = 0"
| "closingAttempt need (recs # rest) =
     (if need \<le> length recs then 1 else Suc (closingAttempt (need - length recs) rest))"

text \<open>
  The peers attempt \<open>k\<close> turned to, in the order of the send log, and the peers the
  attempts before \<open>k\<close> turned to.
\<close>

definition sentAt :: "DispatchState \<Rightarrow> nat \<Rightarrow> peer_ID list" where
  "sentAt s k = map (\<lambda>e. fst (snd e)) (filter (\<lambda>e. fst e = k) (sent_log s))"

definition sentBefore :: "DispatchState \<Rightarrow> nat \<Rightarrow> peer_ID set" where
  "sentBefore s k = set (map (\<lambda>e. fst (snd e)) (filter (\<lambda>e. fst e < k) (sent_log s)))"

text \<open>
  The peers to which a run has written the \<^verbatim>\<open>Request\<close>, and what "at least \<^verbatim>\<open>RF\<close>
  reachable in-region peers" means for a run: at least \<^verbatim>\<open>RF\<close> pulls of the root
  complete during the waits, and every completed pull of the root is the one pull of a
  peer to which this run has written the \<^verbatim>\<open>Request\<close> (no completion is reported twice,
  and none for another peer).
\<close>

definition writtenPeers :: "DispatchState \<Rightarrow> peer_ID list" where
  "writtenPeers s = map (\<lambda>e. fst (snd e)) (filter (\<lambda>e. snd (snd e) = Written) (sent_log s))"

definition peersReachable ::
  "DispatchEnv \<Rightarrow> Replication \<Rightarrow> Request \<Rightarrow> DispatchOptions \<Rightarrow> bool" where
  "peersReachable env r req opt \<longleftrightarrow>
     nat (RF opt) \<le> length (arrivals env req opt) \<and>
     mset (map Provider (arrivals env req opt))
       \<subseteq># mset (writtenPeers (requestsLoop env req opt (initialState r)))"

subsection \<open>Concrete runs\<close>

text \<open>
  Inputs used to run the model: a request, options with two retries, and five worlds with
  two Asian peers, on a platform that makes channels of up to \<open>2^43 - 3\<close> records. In
  \<open>env_no_reply\<close> the stream to the first cannot be opened and nobody
  ever completes a pull. In \<open>env_rejected\<close> both requests are written and the pulls of
  both peers fail. In \<open>env_foreign\<close> a transfer of the same root to an African peer completes
  while the dispatcher, in Asia, waits. In \<open>env_quorum\<close> both Asian peers complete their
  pulls before the first timer fires. In \<open>env_dup\<close> the transport reports the completed
  pull of the first peer twice, then that of the second.
\<close>

definition req0 :: Request where
  "req0 = \<lparr>PayloadCID = ''root'', Size = 256000\<rparr>"

definition opt_rf1 :: DispatchOptions where
  "opt_rf1 = \<lparr>BackoffMin = 10000000, BackoffAttemps = 2, RF = 1\<rparr>"

definition opt_rf2 :: DispatchOptions where
  "opt_rf2 = \<lparr>BackoffMin = 10000000, BackoffAttemps = 2, RF = 2\<rparr>"

definition env_no_reply :: DispatchEnv where
  "env_no_reply =
     \<lparr>peersAt = (\<lambda>k. [(''peerA'', [asia]), (''peerB'', [asia])]),
      streamAt = (\<lambda>k p. if p = ''peerA'' then OpenFailed else Written),
      eventsAt = (\<lambda>k. []),
      outReader = True,
      chanLimit = 2 ^ 43 - 3\<rparr>"

definition env_rejected :: DispatchEnv where
  "env_rejected =
     \<lparr>peersAt = (\<lambda>k. [(''peerA'', [asia]), (''peerB'', [asia])]),
      streamAt = (\<lambda>k p. Written),
      eventsAt = (\<lambda>k. if k = 0
                       then [\<lparr>Status = Failed, BaseCID = ''root'', Recipient = ''peerA''\<rparr>,
                             \<lparr>Status = Failed, BaseCID = ''root'', Recipient = ''peerB''\<rparr>]
                       else []),
      outReader = True,
      chanLimit = 2 ^ 43 - 3\<rparr>"

definition env_foreign :: DispatchEnv where
  "env_foreign =
     \<lparr>peersAt = (\<lambda>k. [(''peerA'', [asia]), (''peerX'', [africa])]),
      streamAt = (\<lambda>k p. Written),
      eventsAt = (\<lambda>k. if k = 0
                       then [\<lparr>Status = Completed, BaseCID = ''root'', Recipient = ''peerX''\<rparr>]
                       else []),
      outReader = True,
      chanLimit = 2 ^ 43 - 3\<rparr>"

definition env_quorum :: DispatchEnv where
  "env_quorum =
     \<lparr>peersAt = (\<lambda>k. [(''peerA'', [asia]), (''peerX'', [africa]), (''peerB'', [asia])]),
      streamAt = (\<lambda>k p. Written),
      eventsAt = (\<lambda>k. if k = 0
                       then [\<lparr>Status = Ongoing, BaseCID = ''root'', Recipient = ''peerB''\<rparr>,
                             \<lparr>Status = Completed, BaseCID = ''root'', Recipient = ''peerB''\<rparr>,
                             \<lparr>Status = Completed, BaseCID = ''other'', Recipient = ''peerX''\<rparr>,
                             \<lparr>Status = Completed, BaseCID = ''root'', Recipient = ''peerA''\<rparr>]
                       else []),
      outReader = True,
      chanLimit = 2 ^ 43 - 3\<rparr>"

definition env_dup :: DispatchEnv where
  "env_dup =
     \<lparr>peersAt = (\<lambda>k. [(''peerA'', [asia]), (''peerB'', [asia])]),
      streamAt = (\<lambda>k p. Written),
      eventsAt = (\<lambda>k. if k = 0
                       then [\<lparr>Status = Completed, BaseCID = ''root'', Recipient = ''peerA''\<rparr>,
                             \<lparr>Status = Completed, BaseCID = ''root'', Recipient = ''peerA''\<rparr>,
                             \<lparr>Status = Completed, BaseCID = ''root'', Recipient = ''peerB''\<rparr>]
                       else []),
      outReader = True,
      chanLimit = 2 ^ 43 - 3\<rparr>"

section \<open>Payment channels\<close>

subsection \<open>Store and chain interface\<close>

text \<open>
  Modelled from the spec: \<^verbatim>\<open>ChannelInfo\<close> and the \<^verbatim>\<open>Store\<close> with its methods, which are
  declared in a file that is not among the sources. The fields are those the source reads
  or writes (spec 3 and 6.5): the channel id assigned at creation (an opaque token, here
  drawn from a counter), the on-chain address (absent until the create message is
  confirmed), the two parties, the confirmed and the pending amount (\<^verbatim>\<open>big.Int\<close>, an
  unbounded integer) and the digests of the outstanding create and add-funds messages.
\<close>

type_synonym channelID = nat

record ChannelInfo =
  ChannelID :: channelID
  Channel :: "address option"
  Control :: address
  Target :: address
  Amount :: int
  PendingAmount :: int
  CreateMsg :: "cid option"
  AddFundsMsg :: "cid option"

text \<open>
  Modelled from the spec (4.5): the store keeps one record per channel, the outcome of
  on-chain operations by message digest, and the channel a message belongs to.
\<close>

record Store =
  channels :: "ChannelInfo list"
  msgResults :: "cid \<rightharpoonup> error option"
  msgChannel :: "cid \<rightharpoonup> channelID"
  nextID :: channelID

text \<open>
  Modelled from the spec: \<^verbatim>\<open>Store.ByChannelID\<close> (4.5), the lookup of a record by channel
  id; an unknown id is an error.
\<close>

definition ByChannelID :: "Store \<Rightarrow> channelID \<Rightarrow> error + ChannelInfo" where
  "ByChannelID st chid =
     (case find (\<lambda>ci. ChannelID ci = chid) (channels st) of
        None \<Rightarrow> Inl (Errorf ''channel not found'')
      | Some ci \<Rightarrow> Inr ci)"

text \<open>
  Modelled from the spec: \<^verbatim>\<open>Store.ByFromTo\<close> (4.5), the lookup of the record of a
  direction \<open>(from, to)\<close>.
\<close>

definition ByFromTo :: "Store \<Rightarrow> address \<Rightarrow> address \<Rightarrow> ChannelInfo option" where
  "ByFromTo st sender recipient =
     find (\<lambda>ci. Control ci = sender \<and> Target ci = recipient) (channels st)"

text \<open>
  Modelled from the spec: \<^verbatim>\<open>Store.putChannelInfo\<close>, the single-record write (4.5): the
  record with the same channel id is replaced, a new one is added.
\<close>

fun replaceInfo :: "ChannelInfo \<Rightarrow> ChannelInfo list \<Rightarrow> ChannelInfo list" where
  "replaceInfo ci [] = [ci]"
| "replaceInfo ci (x # xs) =
     (if ChannelID x = ChannelID ci then ci # xs else x # replaceInfo ci xs)"

definition putChannelInfo :: "Store \<Rightarrow> ChannelInfo \<Rightarrow> Store" where
  "putChannelInfo st ci = st\<lparr>channels := replaceInfo ci (channels st)\<rparr>"

text \<open>
  Modelled from the spec: \<^verbatim>\<open>CreateChannel(from, to, createMsgCid, amount)\<close> (4.5) assigns a fresh channel id, sets
  \<^verbatim>\<open>createMsg\<close>, \<^verbatim>\<open>pendingAmount := amount\<close> and \<^verbatim>\<open>amount := 0\<close>.
\<close>

definition CreateChannel ::
  "Store \<Rightarrow> address \<Rightarrow> address \<Rightarrow> cid \<Rightarrow> int \<Rightarrow> error + (Store \<times> ChannelInfo)" where
  "CreateChannel st sender recipient createMsgCid amt =
     (let ci = \<lparr>ChannelID = nextID st, Channel = None, Control = sender, Target = recipient,
                Amount = 0, PendingAmount = amt, CreateMsg = Some createMsgCid,
                AddFundsMsg = None\<rparr>
      in Inr (st\<lparr>channels := channels st @ [ci],
                 msgChannel := (msgChannel st)(createMsgCid \<mapsto> nextID st),
                 nextID := Suc (nextID st)\<rparr>, ci))"

text \<open>
  Modelled from the spec: \<^verbatim>\<open>RemoveChannel(channelId)\<close> (4.5) takes the record out of the
  store.
\<close>

definition RemoveChannel :: "Store \<Rightarrow> channelID \<Rightarrow> Store" where
  "RemoveChannel st chid = st\<lparr>channels := filter (\<lambda>ci. ChannelID ci \<noteq> chid) (channels st)\<rparr>"

text \<open>
  Modelled from the spec: \<^verbatim>\<open>SaveMessageResult(mcid, err)\<close> (4.5) records the outcome of an
  on-chain operation keyed by message digest.
\<close>

definition SaveMessageResult :: "Store \<Rightarrow> cid \<Rightarrow> error option \<Rightarrow> Store" where
  "SaveMessageResult st mcid err = st\<lparr>msgResults := (msgResults st)(mcid \<mapsto> err)\<rparr>"

text \<open>
  Modelled from the spec: \<^verbatim>\<open>SaveNewMessage\<close> keeps the reference from a message digest to
  its channel, by which \<^verbatim>\<open>ByMessageCid\<close> (4.5) finds the channel.
\<close>

definition SaveNewMessage :: "Store \<Rightarrow> channelID \<Rightarrow> cid \<Rightarrow> Store" where
  "SaveNewMessage st chid mcid = st\<lparr>msgChannel := (msgChannel st)(mcid \<mapsto> chid)\<rparr>"

text \<open>
  Chain messages (\<^verbatim>\<open>filecoin.Message\<close>, \<^verbatim>\<open>filecoin.SignedMessage\<close>), the receipt a wait
  returns and the decoded return of the init actor.
\<close>

record Message =
  To :: address
  From :: address
  Nonce :: "64 word"
  Value :: int
  Method :: "64 word"
  Params :: string
  GasLimit :: int
  GasFeeCap :: int
  GasPremium :: int

record SignedMessage =
  sm_Message :: Message
  sm_Signature :: string

record MessageReceipt =
  ExitCode :: int
  Return :: string

record MsgLookup =
  Receipt :: MessageReceipt

record ExecReturn =
  IDAddress :: address
  RobustAddress :: address

text \<open>
  The collaborators outside the package, as the functions the source calls on them: the
  node API (gas estimation, which fills in the three gas fields; the sender's nonce;
  pushing to the message pool; waiting for a message with confidence 5), the wallet, the
  digests of a message and of a signed message, and the CBOR decoder of \<^verbatim>\<open>ExecReturn\<close>.
\<close>

record ChainEnv =
  GasEstimateMessageGas :: "Message \<Rightarrow> error + (int \<times> int \<times> int)"
  StateGetActorNonce :: "address \<Rightarrow> error + 64 word"
  ToStorageBlockCid :: "Message \<Rightarrow> error + cid"
  WalletSign :: "address \<Rightarrow> cid \<Rightarrow> error + string"
  MpoolPush :: "SignedMessage \<Rightarrow> error + cid"
  SignedCid :: "SignedMessage \<Rightarrow> cid"
  StateWaitMsg :: "cid \<Rightarrow> 64 word \<Rightarrow> error + MsgLookup"
  UnmarshalExecReturn :: "string \<Rightarrow> error + ExecReturn"

subsection \<open>Funds requests\<close>

text \<open>\<^verbatim>\<open>paychFundsRes\<close> is the response to a create-channel or add-funds request.\<close>

record paychFundsRes =
  res_channel :: address
  res_mcid :: cid
  res_err :: "error option"

text \<open>
  \<^verbatim>\<open>fundsReq\<close>: whether the request's context is done, what was sent on the promise channel
  (nothing yet: \<open>None\<close>), the amount, whether a merge parent is set, and the \<^verbatim>\<open>active\<close>
  flag that \<^verbatim>\<open>cancel\<close> clears.
\<close>

record fundsReq =
  ctxDone :: bool
  promise :: "paychFundsRes option"
  amt :: int
  hasMergeParent :: bool
  active :: bool

definition newFundsReq :: "int \<Rightarrow> fundsReq" where
  "newFundsReq a =
     \<lparr>ctxDone = False, promise = None, amt = a, hasMergeParent = False, active = True\<rparr>"

text \<open>
  \<^verbatim>\<open>fundsReq.onComplete\<close> is a \<^verbatim>\<open>select\<close> between the context's \<^verbatim>\<open>Done\<close> channel and the
  send on the promise, an unbuffered channel. The \<^verbatim>\<open>Done\<close> case is ready when the context
  is done, the send when the caller of the request is receiving from the promise. When
  both are ready the Go runtime picks one of them (\<open>pickSend\<close> says which), when one is
  ready it is taken, and when none is ready, and none becomes ready, the \<^verbatim>\<open>select\<close> does
  not return (\<open>None\<close>).
\<close>

definition fundsReq_onComplete ::
  "bool \<Rightarrow> bool \<Rightarrow> fundsReq \<Rightarrow> paychFundsRes \<Rightarrow> fundsReq option" where
  "fundsReq_onComplete receiver pickSend r res =
     (if ctxDone r \<and> receiver then
        (if pickSend then Some (r\<lparr>promise := Some res\<rparr>) else Some r)
      else if ctxDone r then Some r
      else if receiver then Some (r\<lparr>promise := Some res\<rparr>)
      else None)"

definition isActive :: "fundsReq \<Rightarrow> bool" where
  "isActive r = active r"

definition setMergeParent :: "fundsReq \<Rightarrow> fundsReq" where
  "setMergeParent r = r\<lparr>hasMergeParent := True\<rparr>"

text \<open>
  \<^verbatim>\<open>mergedFundsReq\<close>: the merged requests and whether the merge's own context has been
  cancelled.
\<close>

record mergedFundsReq =
  ctxCancelled :: bool
  reqs :: "fundsReq list"

text \<open>\<^verbatim>\<open>checkActive\<close>: return at the first active request; cancel when there is none.\<close>

fun anyActive :: "fundsReq list \<Rightarrow> bool" where
  "anyActive [] = False"
| "anyActive (r # rs) = (if isActive r then True else anyActive rs)"

definition checkActive :: "mergedFundsReq \<Rightarrow> mergedFundsReq" where
  "checkActive m = (if anyActive (reqs m) then m else m\<lparr>ctxCancelled := True\<rparr>)"

definition newMergedFundsReq :: "fundsReq list \<Rightarrow> mergedFundsReq" where
  "newMergedFundsReq rs = checkActive \<lparr>ctxCancelled = False, reqs = map setMergeParent rs\<rparr>"

text \<open>
  \<^verbatim>\<open>fundsReq.cancel\<close> for the \<open>i\<close>-th request of a merge: clear \<^verbatim>\<open>active\<close>, then have the
  merge parent check whether any request is left active.
\<close>

definition cancelReq :: "mergedFundsReq \<Rightarrow> nat \<Rightarrow> mergedFundsReq" where
  "cancelReq m i =
     (if i < length (reqs m)
      then checkActive (m\<lparr>reqs := (reqs m)[i := (reqs m ! i)\<lparr>active := False\<rparr>]\<rparr>)
      else m)"

text \<open>
  The callers around a merged request, by the position of a request in the merge:
  whether the caller of the request is receiving from its promise, and what the runtime
  picks for it when both cases of the \<^verbatim>\<open>select\<close> are ready.
\<close>

record Callers =
  receiving :: "nat \<Rightarrow> bool"
  pickSend :: "nat \<Rightarrow> bool"

text \<open>
  \<^verbatim>\<open>mergedFundsReq.onComplete\<close>: call \<^verbatim>\<open>onComplete\<close> on each request that is active, in
  order; it returns when each of these calls has returned.
\<close>

fun onCompleteAll ::
  "Callers \<Rightarrow> nat \<Rightarrow> fundsReq list \<Rightarrow> paychFundsRes \<Rightarrow> fundsReq list option" where
  "onCompleteAll cs i [] res = Some []"
| "onCompleteAll cs i (r # rs) res =
     (if isActive r then
        (case fundsReq_onComplete (receiving cs i) (pickSend cs i) r res of
           None \<Rightarrow> None
         | Some r' \<Rightarrow> map_option ((#) r') (onCompleteAll cs (Suc i) rs res))
      else map_option ((#) r) (onCompleteAll cs (Suc i) rs res))"

definition mergedFundsReq_onComplete ::
  "Callers \<Rightarrow> mergedFundsReq \<Rightarrow> paychFundsRes \<Rightarrow> mergedFundsReq option" where
  "mergedFundsReq_onComplete cs m res =
     map_option (\<lambda>rs. m\<lparr>reqs := rs\<rparr>) (onCompleteAll cs 0 (reqs m) res)"

text \<open>\<^verbatim>\<open>mergedFundsReq.sum\<close>: add up the amounts of the requests that are active.\<close>

fun sumLoop :: "int \<Rightarrow> fundsReq list \<Rightarrow> int" where
  "sumLoop acc [] = acc"
| "sumLoop acc (r # rs) = sumLoop (if isActive r then acc + amt r else acc) rs"

definition mergedFundsReq_sum :: "mergedFundsReq \<Rightarrow> int" where
  "mergedFundsReq_sum m = sumLoop 0 (reqs m)"

subsection \<open>The channel\<close>

text \<open>
  \<^verbatim>\<open>multiLock\<close>: what \<^verbatim>\<open>Lock\<close> and \<^verbatim>\<open>Unlock\<close> do to the two locks, as the sequence of lock
  operations they perform. The \<^verbatim>\<open>rwlock\<close> interface of the global lock offers only
  \<^verbatim>\<open>RLock\<close> and \<^verbatim>\<open>RUnlock\<close>; the write side belongs to the owner of the global lock.
\<close>

datatype lock_event =
  ChanLock | ChanUnlock | GlobalRLock | GlobalRUnlock | GlobalWLock | GlobalWUnlock

definition multiLock_Lock :: "lock_event list \<Rightarrow> lock_event list" where
  "multiLock_Lock tr = (tr @ [ChanLock]) @ [GlobalRLock]"

definition multiLock_Unlock :: "lock_event list \<Rightarrow> lock_event list" where
  "multiLock_Unlock tr = (tr @ [GlobalRUnlock]) @ [ChanUnlock]"

text \<open>
  The goroutines a channel starts (\<^verbatim>\<open>go ch.waitForPaychCreateMsg\<close>,
  \<^verbatim>\<open>go ch.waitForAddFundsMsg\<close>) are kept as pending waiters.
\<close>

datatype waiter = WaitCreate channelID cid | WaitAddFunds channelID cid

text \<open>
  The \<^verbatim>\<open>channel\<close>: the two parties, the store, the funds-request queue and the message
  listeners (for each registered callback the message it waits for), together with what
  the channel does to the world: the trace of lock operations, the signed messages pushed
  to the message pool, the waiters started and the callbacks invoked, by index and with
  the error they were handed.
\<close>

record channel =
  ch_from :: address
  ch_to :: address
  store :: Store
  fundsReqQueue :: "fundsReq list"
  msgListeners :: "cid list"
  lk :: "lock_event list"
  mpool :: "SignedMessage list"
  waiters :: "waiter list"
  callbacks :: "(nat \<times> error option) list"

definition Lock :: "channel \<Rightarrow> channel" where
  "Lock ch = ch\<lparr>lk := multiLock_Lock (lk ch)\<rparr>"

definition Unlock :: "channel \<Rightarrow> channel" where
  "Unlock ch = ch\<lparr>lk := multiLock_Unlock (lk ch)\<rparr>"

text \<open>
  \<^verbatim>\<open>onMsgComplete\<close> registers a callback for a message; \<^verbatim>\<open>fireMsgComplete\<close> publishes the
  event to every subscriber, and a subscriber calls its callback when the digests agree.
\<close>

definition onMsgComplete :: "channel \<Rightarrow> cid \<Rightarrow> channel" where
  "onMsgComplete ch mcid = ch\<lparr>msgListeners := msgListeners ch @ [mcid]\<rparr>"

fun publish :: "cid \<Rightarrow> error option \<Rightarrow> nat \<Rightarrow> cid list \<Rightarrow> (nat \<times> error option) list" where
  "publish mcid err i [] = []"
| "publish mcid err i (sub # subs) =
     (if sub = mcid then (i, err) # publish mcid err (Suc i) subs
      else publish mcid err (Suc i) subs)"

definition fireMsgComplete :: "channel \<Rightarrow> cid \<Rightarrow> error option \<Rightarrow> channel" where
  "fireMsgComplete ch mcid err =
     ch\<lparr>callbacks := callbacks ch @ publish mcid err 0 (msgListeners ch)\<rparr>"

text \<open>
  \<^verbatim>\<open>mutateChannelInfo\<close>: read the record, apply the mutation, write it back; when the
  record cannot be read the error is printed and nothing changes.
\<close>

definition mutateChannelInfo ::
  "channel \<Rightarrow> channelID \<Rightarrow> (ChannelInfo \<Rightarrow> ChannelInfo) \<Rightarrow> channel" where
  "mutateChannelInfo ch chid mutate =
     (case ByChannelID (store ch) chid of
        Inl err \<Rightarrow> ch
      | Inr channelInfo \<Rightarrow> ch\<lparr>store := putChannelInfo (store ch) (mutate channelInfo)\<rparr>)"

text \<open>
  \<^verbatim>\<open>msgWaitComplete\<close>: under the lock, save the message result and inform the listeners.
  The source ends there: the lines that would process the next queue item are commented
  out.
\<close>

definition msgWaitComplete :: "channel \<Rightarrow> cid \<Rightarrow> error option \<Rightarrow> channel" where
  "msgWaitComplete ch mcid err =
     (let ch1 = Lock ch;
          ch2 = ch1\<lparr>store := SaveMessageResult (store ch1) mcid err\<rparr>;
          ch3 = fireMsgComplete ch2 mcid err
      in Unlock ch3)"

text \<open>
  \<^verbatim>\<open>waitPaychCreateMsg\<close>: wait for the message; on a non-zero exit code remove the channel
  from the store; otherwise decode the return and store the robust address.
\<close>

definition waitPaychCreateMsg ::
  "ChainEnv \<Rightarrow> channel \<Rightarrow> channelID \<Rightarrow> cid \<Rightarrow> channel \<times> error option" where
  "waitPaychCreateMsg env ch chid mcid =
     (case StateWaitMsg env mcid 5 of
        Inl err \<Rightarrow> (ch, Some err)
      | Inr mwait \<Rightarrow>
          if ExitCode (Receipt mwait) \<noteq> 0 then
            (let ch1 = Lock ch;
                 ch2 = ch1\<lparr>store := RemoveChannel (store ch1) chid\<rparr>;
                 err = ErrorfExit ''payment channel creation failed (exit code %d)''
                         (ExitCode (Receipt mwait))
             in (Unlock ch2, Some err))
          else
            (case UnmarshalExecReturn env (Return (Receipt mwait)) of
               Inl err \<Rightarrow> (ch, Some err)
             | Inr decodedReturn \<Rightarrow>
                 (let ch1 = Lock ch;
                      ch2 = mutateChannelInfo ch1 chid
                              (\<lambda>channelInfo. channelInfo
                                 \<lparr>Channel := Some (RobustAddress decodedReturn),
                                  Amount := PendingAmount channelInfo,
                                  PendingAmount := 0,
                                  CreateMsg := None\<rparr>)
                  in (Unlock ch2, None))))"

definition waitForPaychCreateMsg :: "ChainEnv \<Rightarrow> channel \<Rightarrow> channelID \<Rightarrow> cid \<Rightarrow> channel" where
  "waitForPaychCreateMsg env ch chid mcid =
     (case waitPaychCreateMsg env ch chid mcid of (ch1, err) \<Rightarrow> msgWaitComplete ch1 mcid err)"

text \<open>
  \<^verbatim>\<open>waitAddFundsMsg\<close>: wait for the message; on a non-zero exit code drop the pending
  amount; otherwise add the pending amount to the confirmed amount.
\<close>

definition waitAddFundsMsg ::
  "ChainEnv \<Rightarrow> channel \<Rightarrow> channelID \<Rightarrow> cid \<Rightarrow> channel \<times> error option" where
  "waitAddFundsMsg env ch chid mcid =
     (case StateWaitMsg env mcid 5 of
        Inl err \<Rightarrow> (ch, Some err)
      | Inr mwait \<Rightarrow>
          if ExitCode (Receipt mwait) \<noteq> 0 then
            (let err = ErrorfExit ''voucher channel creation failed: adding funds (exit code %d)''
                         (ExitCode (Receipt mwait));
                 ch1 = Lock ch;
                 ch2 = mutateChannelInfo ch1 chid
                         (\<lambda>channelInfo. channelInfo\<lparr>PendingAmount := 0, AddFundsMsg := None\<rparr>)
             in (Unlock ch2, Some err))
          else
            (let ch1 = Lock ch;
                 ch2 = mutateChannelInfo ch1 chid
                         (\<lambda>channelInfo. channelInfo
                            \<lparr>Amount := Amount channelInfo + PendingAmount channelInfo,
                             PendingAmount := 0,
                             AddFundsMsg := None\<rparr>)
             in (Unlock ch2, None)))"

definition waitForAddFundsMsg :: "ChainEnv \<Rightarrow> channel \<Rightarrow> channelID \<Rightarrow> cid \<Rightarrow> channel" where
  "waitForAddFundsMsg env ch chid mcid =
     (case waitAddFundsMsg env ch chid mcid of (ch1, err) \<Rightarrow> msgWaitComplete ch1 mcid err)"

subsection \<open>Submitting messages\<close>

text \<open>
  \<^verbatim>\<open>mpoolPush\<close>: estimate gas, read the sender's nonce, sign the message block and push the
  signed message; each step may fail, and only a successful push puts the message in the
  pool.
\<close>

definition mpoolPush ::
  "ChainEnv \<Rightarrow> channel \<Rightarrow> Message \<Rightarrow> channel \<times> (error + SignedMessage)" where
  "mpoolPush env ch msg =
     (case GasEstimateMessageGas env msg of
        Inl err \<Rightarrow> (ch, Inl err)
      | Inr (gl, fc, gp) \<Rightarrow>
          (let msg1 = msg\<lparr>GasLimit := gl, GasFeeCap := fc, GasPremium := gp\<rparr> in
           case StateGetActorNonce env (From msg1) of
             Inl err \<Rightarrow> (ch, Inl err)
           | Inr nonce \<Rightarrow>
               (let msg2 = msg1\<lparr>Nonce := nonce\<rparr> in
                case ToStorageBlockCid env msg2 of
                  Inl err \<Rightarrow> (ch, Inl err)
                | Inr mbl \<Rightarrow>
                    (case WalletSign env (From msg2) mbl of
                       Inl err \<Rightarrow> (ch, Inl err)
                     | Inr sig \<Rightarrow>
                         (let smsg = \<lparr>sm_Message = msg2, sm_Signature = sig\<rparr> in
                          case MpoolPush env smsg of
                            Inl err \<Rightarrow>
                              (ch, Inl (ErrorfWrap ''MpoolPush failed with error: %v'' err))
                          | Inr pushed \<Rightarrow>
                              (ch\<lparr>mpool := mpool ch @ [smsg]\<rparr>, Inr smsg))))))"

text \<open>
  Modelled from the spec: the message builder's \<^verbatim>\<open>Create\<close>, which is not among the sources.
  The create message goes to the init actor, carries the constructor parameters
  \<open>{from, to}\<close> and the amount as its value (spec 4.6 and 6.4).
\<close>

definition message_Create :: "address \<Rightarrow> address \<Rightarrow> int \<Rightarrow> error + Message" where
  "message_Create sender recipient amount =
     Inr \<lparr>To = ''f01'', From = sender, Nonce = 0, Value = amount, Method = 2,
          Params = sender @ '','' @ recipient, GasLimit = 0, GasFeeCap = 0, GasPremium = 0\<rparr>"

text \<open>
  \<^verbatim>\<open>create\<close>: build the create message, push it, record the channel in the store and
  start the waiter. The source copies \<^verbatim>\<open>*msg\<close> before it looks at the builder's error.
\<close>

definition create :: "ChainEnv \<Rightarrow> channel \<Rightarrow> int \<Rightarrow> channel \<times> (error + cid)" where
  "create env ch amount =
     (case message_Create (ch_from ch) (ch_to ch) amount of
        Inl err \<Rightarrow> (ch, Inl (Panic ''nil pointer dereference''))
      | Inr msg \<Rightarrow>
          (case mpoolPush env ch msg of
             (ch1, Inl err) \<Rightarrow> (ch1, Inl err)
           | (ch1, Inr smsg) \<Rightarrow>
               (case CreateChannel (store ch1) (ch_from ch1) (ch_to ch1) (SignedCid env smsg)
                       amount of
                  Inl err \<Rightarrow>
                    (ch1, Inl (ErrorfWrap ''Unable to create channel in store: %v'' err))
                | Inr (st, ci) \<Rightarrow>
                    (ch1\<lparr>store := st,
                         waiters := waiters ch1 @ [WaitCreate (ChannelID ci) (SignedCid env smsg)]\<rparr>,
                     Inr (SignedCid env smsg)))))"

text \<open>
  \<^verbatim>\<open>addFunds\<close>: a method-0 message to the channel address with the amount as value;
  after the push, record the pending amount and the message on the channel and start the
  waiter.
\<close>

definition addFunds ::
  "ChainEnv \<Rightarrow> channel \<Rightarrow> ChannelInfo \<Rightarrow> int \<Rightarrow> channel \<times> (error + cid)" where
  "addFunds env ch channelInfo amount =
     (case Channel channelInfo of
        None \<Rightarrow> (ch, Inl (Panic ''nil pointer dereference''))
      | Some addr \<Rightarrow>
          (let msg = \<lparr>To = addr, From = Control channelInfo, Nonce = 0, Value = amount,
                       Method = 0, Params = [], GasLimit = 0, GasFeeCap = 0, GasPremium = 0\<rparr>
           in case mpoolPush env ch msg of
                (ch1, Inl err) \<Rightarrow> (ch1, Inl err)
              | (ch1, Inr smsg) \<Rightarrow>
                  (let mcid = SignedCid env smsg;
                       ch2 = mutateChannelInfo ch1 (ChannelID channelInfo)
                               (\<lambda>ci. ci\<lparr>PendingAmount := amount, AddFundsMsg := Some mcid\<rparr>);
                       ch3 = ch2\<lparr>store := SaveNewMessage (store ch2) (ChannelID channelInfo) mcid\<rparr>;
                       ch4 = ch3\<lparr>waiters := waiters ch3 @ [WaitAddFunds (ChannelID channelInfo) mcid]\<rparr>
                   in (ch4, Inr mcid))))"

text \<open>
  Modelled from the spec: the queue processor behind \<^verbatim>\<open>GetOrCreateChannel\<close>, which is not
  among the sources (spec 4.6, steps 1 and 2). For a merged request: when the channel has
  an outstanding on-chain message nothing is submitted (\<open>None\<close>); when the channel address
  is unset a create message for the sum of the merge is emitted, otherwise an add-funds
  message to the channel address for the sum. \<^verbatim>\<open>create\<close> and \<^verbatim>\<open>addFunds\<close> record the
  message digest and the pending amount.
\<close>

definition submitMerged ::
  "ChainEnv \<Rightarrow> channel \<Rightarrow> mergedFundsReq \<Rightarrow> channel \<times> (error + cid) option" where
  "submitMerged env ch m =
     (case ByFromTo (store ch) (ch_from ch) (ch_to ch) of
        None \<Rightarrow> (case create env ch (mergedFundsReq_sum m) of (ch1, res) \<Rightarrow> (ch1, Some res))
      | Some ci \<Rightarrow>
          if CreateMsg ci = None \<and> AddFundsMsg ci = None then
            (case Channel ci of
               None \<Rightarrow>
                 (case create env ch (mergedFundsReq_sum m) of (ch1, res) \<Rightarrow> (ch1, Some res))
             | Some addr \<Rightarrow>
                 (case addFunds env ch ci (mergedFundsReq_sum m) of
                    (ch1, res) \<Rightarrow> (ch1, Some res)))
          else (ch, None))"

text \<open>
  Modelled from the spec: processing the queue drains the currently active requests into
  one merged request and submits it; an empty queue needs nothing.
\<close>

definition processQueue :: "ChainEnv \<Rightarrow> channel \<Rightarrow> channel \<times> (error + cid) option" where
  "processQueue env ch =
     (if fundsReqQueue ch = [] then (ch, None)
      else submitMerged env ch (newMergedFundsReq (filter isActive (fundsReqQueue ch))))"

subsection \<open>Concrete channels\<close>

text \<open>
  A chain on which every call succeeds; the message \<open>''bad''\<close> is confirmed with exit
  code 7 (out of gas), every other message with exit code 0.
\<close>

definition chain0 :: ChainEnv where
  "chain0 =
     \<lparr>GasEstimateMessageGas = (\<lambda>m. Inr (1000, 10, 1)),
      StateGetActorNonce = (\<lambda>a. Inr 7),
      ToStorageBlockCid = (\<lambda>m. Inr ''block''),
      WalletSign = (\<lambda>a c. Inr ''sig''),
      MpoolPush = (\<lambda>sm. Inr ''pushed''),
      SignedCid = (\<lambda>sm. ''msg2''),
      StateWaitMsg = (\<lambda>c conf. Inr \<lparr>Receipt = \<lparr>ExitCode = (if c = ''bad'' then 7 else 0),
                                                    Return = ''ret''\<rparr>\<rparr>),
      UnmarshalExecReturn = (\<lambda>b. Inr \<lparr>IDAddress = ''t0100'', RobustAddress = ''t2robust''\<rparr>)\<rparr>"

text \<open>
  Three funds requests for 5, 7 and 3; the second was cancelled. The callers of the other
  two are receiving from their promises.
\<close>

definition reqs573 :: "fundsReq list" where
  "reqs573 = [newFundsReq 5, (newFundsReq 7)\<lparr>ctxDone := True, active := False\<rparr>,
              newFundsReq 3]"

definition callers573 :: Callers where
  "callers573 = \<lparr>receiving = (\<lambda>i. i \<noteq> 1), pickSend = (\<lambda>i. True)\<rparr>"

definition res0 :: paychFundsRes where
  "res0 = \<lparr>res_channel = ''t2robust'', res_mcid = ''msg2'', res_err = None\<rparr>"

definition emptyStore :: Store where
  "emptyStore = \<lparr>channels = [], msgResults = Map.empty, msgChannel = Map.empty, nextID = 0\<rparr>"

text \<open>A channel from alice to bob that has no record in the store yet.\<close>

definition ch_new :: channel where
  "ch_new = \<lparr>ch_from = ''alice'', ch_to = ''bob'', store = emptyStore, fundsReqQueue = [],
             msgListeners = [], lk = [], mpool = [], waiters = [], callbacks = []\<rparr>"

text \<open>The same channel waiting for its create message \<open>''msg1''\<close> (or \<open>''bad''\<close>) for 15.\<close>

definition ci_creating :: "cid \<Rightarrow> ChannelInfo" where
  "ci_creating mcid =
     \<lparr>ChannelID = 0, Channel = None, Control = ''alice'', Target = ''bob'', Amount = 0,
      PendingAmount = 15, CreateMsg = Some mcid, AddFundsMsg = None\<rparr>"

definition ch_creating :: "cid \<Rightarrow> channel" where
  "ch_creating mcid =
     ch_new\<lparr>store := emptyStore\<lparr>channels := [ci_creating mcid], nextID := 1\<rparr>,
            msgListeners := [mcid]\<rparr>"

text \<open>
  The channel, created with 15, waiting for the add-funds message \<open>''msg1''\<close> (or
  \<open>''bad''\<close>) for 10, with one more funds request for 4 queued behind it.
\<close>

definition ci_adding :: "cid \<Rightarrow> ChannelInfo" where
  "ci_adding mcid =
     \<lparr>ChannelID = 0, Channel = Some ''t2robust'', Control = ''alice'', Target = ''bob'',
      Amount = 15, PendingAmount = 10, CreateMsg = None, AddFundsMsg = Some mcid\<rparr>"

definition ch_adding :: "cid \<Rightarrow> channel" where
  "ch_adding mcid =
     ch_new\<lparr>store := emptyStore\<lparr>channels := [ci_adding mcid], nextID := 1\<rparr>,
            fundsReqQueue := [newFundsReq 4], msgListeners := [mcid]\<rparr>"

text \<open>
  The channel, created with 15, with no message outstanding, and a chain whose message
  pool refuses every push.
\<close>

definition ci_open :: ChannelInfo where
  "ci_open =
     \<lparr>ChannelID = 0, Channel = Some ''t2robust'', Control = ''alice'', Target = ''bob'',
      Amount = 15, PendingAmount = 0, CreateMsg = None, AddFundsMsg = None\<rparr>"

definition ch_open :: channel where
  "ch_open = ch_new\<lparr>store := emptyStore\<lparr>channels := [ci_open], nextID := 1\<rparr>\<rparr>"

definition chain_nopush :: ChainEnv where
  "chain_nopush = chain0\<lparr>MpoolPush := (\<lambda>sm. Inl (Errorf ''mpool: message rejected''))\<rparr>"

section \<open>Properties of authorization\<close>

lemma pulls_AuthorizePull:
  "pulls (AuthorizePull r k p) k' =
     (if k' = k then Some (insert p (case pulls r k of None \<Rightarrow> {} | Some s \<Rightarrow> s))
      else pulls r k')"
  by (simp add: AuthorizePull_def split: option.split)

lemma pulls_authorizeAll:
  "pulls (authorizeAll r calls) k =
     (if k \<in> fst ` set calls
      then Some ((case pulls r k of None \<Rightarrow> {} | Some s \<Rightarrow> s) \<union> {p. (k, p) \<in> set calls})
      else pulls r k)"
proof (induction calls arbitrary: r)
  case Nil
  show ?case by simp
next
  case (Cons c calls)
  obtain k' p' where c: "c = (k', p')" by (cases c)
  show ?case
    unfolding c authorizeAll.simps Cons.IH pulls_AuthorizePull
    by (force split: option.split)
qed

text \<open>
  C3 (counterexample). The claim makes acceptance depend on the voucher being a
  \<^verbatim>\<open>Request\<close> whose root is the base CID. Here the receiver is authorized for
  \<open>''c1''\<close>, the voucher names the root \<open>''c2''\<close>, and the pull of \<open>''c1''\<close> is accepted.
\<close>

theorem ValidatePull_ignores_voucher_counterexample:
  "ValidatePull (AuthorizePull (NewReplication []) ''c1'' ''p1'') ''p1''
      (RequestVoucher \<lparr>PayloadCID = ''c2'', Size = 0\<rparr>) ''c1'' ''all'' = Inr None
   \<and> PayloadCID \<lparr>PayloadCID = ''c2'', Size = 0\<rparr> \<noteq> ''c1''"
  by (simp add: ValidatePull_def AuthorizePull_def NewReplication_def)

text \<open>
  C3 (amended). After any sequence of \<^verbatim>\<open>AuthorizePull\<close> calls on a fresh
  \<^verbatim>\<open>Replication\<close>, \<^verbatim>\<open>ValidatePull(receiver, voucher, baseCid, selector)\<close> accepts exactly
  when one of the calls was \<^verbatim>\<open>AuthorizePull(baseCid, receiver)\<close>, whatever the voucher and
  the selector are; it answers "not authorized" when some other peer was authorized for
  \<open>baseCid\<close> and "unknown CID" when nobody was. \<^verbatim>\<open>ValidatePush\<close> rejects every push.
\<close>

theorem ValidatePull_authorized_iff:
  "ValidatePull (authorizeAll (NewReplication regions) calls) receiver voucher baseCid selector =
     (if (baseCid, receiver) \<in> set calls then Inr None
      else if baseCid \<in> fst ` set calls then Inl (Errorf ''not authorized'')
      else Inl (Errorf ''unknown CID''))
   \<and> ValidatePush r sender voucher' baseCid' selector' = Inl (Errorf ''no pushed accepted'')"
  by (force simp: ValidatePull_def ValidatePush_def pulls_authorizeAll NewReplication_def)

section \<open>Properties of dispatch\<close>

lemma Peers_distinct: "distinct (Peers pm n regions exclude)"
  by (simp add: Peers_def)

lemma Peers_subset:
  "p \<in> set (Peers pm n regions exclude) \<Longrightarrow> p \<notin> exclude \<and> matchesRegions pm regions p"
  by (auto simp: Peers_def dest: in_set_takeD)

lemma sendAllRequests_map:
  "sendAllRequests stream k ps = map (\<lambda>p. (k, p, stream p)) ps"
  by (induction ps) (auto split: StreamOutcome.split)

lemma authorizeProviders_seen:
  "snd (authorizeProviders root ps (r, seen)) = seen \<union> set ps"
  by (induction ps arbitrary: r seen) auto

lemma authorizeProviders_rgs:
  "rgs (fst (authorizeProviders root ps (r, seen))) = rgs r"
  by (induction ps arbitrary: r seen) (auto simp: AuthorizePull_def split: option.split)

lemma authorizeProviders_pulls:
  "pulls (fst (authorizeProviders root ps (r, seen))) k =
     (if k = root \<and> ps \<noteq> []
      then Some ((case pulls r root of None \<Rightarrow> {} | Some s \<Rightarrow> s) \<union> set ps)
      else pulls r k)"
proof (induction ps arbitrary: r seen)
  case Nil
  show ?case by simp
next
  case (Cons p ps)
  show ?case
    unfolding authorizeProviders.simps Cons.IH pulls_AuthorizePull
    by (auto split: option.split)
qed

lemma waitResults_frame:
  "waitResults reader rf recs s = (s', oc) \<Longrightarrow>
     repl s' = repl s \<and> rcv s' = rcv s \<and> sent_log s' = sent_log s \<and>
     out_closed s' = out_closed s"
  by (induction recs arbitrary: s) (auto simp: Let_def split: if_splits)

lemma waitResults_out:
  "waitResults reader rf recs s = (s', oc) \<Longrightarrow>
     \<exists>m \<le> length recs. out_ch s' = out_ch s @ take m recs \<and> n_cnt s' = n_cnt s + int m
       \<and> (oc = Returned \<longrightarrow> n_cnt s' = rf)
       \<and> (oc = TimerFired \<longrightarrow> m = length recs)
       \<and> (oc = Blocked \<longrightarrow> \<not> reader \<and> rf \<le> int (length (out_ch s')))
       \<and> (n_cnt s < rf \<longrightarrow> n_cnt s' \<le> rf \<and> (oc \<noteq> Returned \<longrightarrow> n_cnt s' < rf))"
proof (induction recs arbitrary: s)
  case Nil
  then show ?case by auto
next
  case (Cons rec recs)
  let ?s1 = "s\<lparr>out_ch := out_ch s @ [rec], n_cnt := n_cnt s + 1\<rparr>"
  show ?case
  proof (cases "reader \<or> int (length (out_ch s)) < rf")
    case block: False
    with Cons.prems have "s' = s" "oc = Blocked" by auto
    then show ?thesis using block by (intro exI [of _ 0]) auto
  next
    case go: True
    show ?thesis
    proof (cases "n_cnt s + 1 = rf")
      case True
      with Cons.prems go have "s' = ?s1" "oc = Returned" by (auto simp: Let_def)
      then show ?thesis using True by (intro exI [of _ 1]) auto
    next
      case False
      with Cons.prems go have "waitResults reader rf recs ?s1 = (s', oc)"
        by (auto simp: Let_def)
      from Cons.IH [OF this] obtain m where m: "m \<le> length recs"
        "out_ch s' = out_ch ?s1 @ take m recs" "n_cnt s' = n_cnt ?s1 + int m"
        "oc = Returned \<longrightarrow> n_cnt s' = rf" "oc = TimerFired \<longrightarrow> m = length recs"
        "oc = Blocked \<longrightarrow> \<not> reader \<and> rf \<le> int (length (out_ch s'))"
        "n_cnt ?s1 < rf \<longrightarrow> n_cnt s' \<le> rf \<and> (oc \<noteq> Returned \<longrightarrow> n_cnt s' < rf)"
        by blast
      then show ?thesis using False by (intro exI [of _ "Suc m"]) auto
    qed
  qed
qed

lemma requestsLoop_rule:
  assumes "I s"
    and "\<And>s s'. I s \<Longrightarrow> \<not> BackoffAttemps opt < int (b_attempt s) \<Longrightarrow>
           attemptBody env req opt s = (s', TimerFired) \<Longrightarrow> I s'"
    and "\<And>s. I s \<Longrightarrow> BackoffAttemps opt < int (b_attempt s) \<Longrightarrow> Q (s\<lparr>out_closed := True\<rparr>)"
    and "\<And>s s'. I s \<Longrightarrow> \<not> BackoffAttemps opt < int (b_attempt s) \<Longrightarrow>
           attemptBody env req opt s = (s', Returned) \<Longrightarrow> Q (s'\<lparr>out_closed := True\<rparr>)"
    and "\<And>s s'. I s \<Longrightarrow> \<not> BackoffAttemps opt < int (b_attempt s) \<Longrightarrow>
           attemptBody env req opt s = (s', Blocked) \<Longrightarrow> Q s'"
  shows "Q (requestsLoop env req opt s)"
  using assms
proof (induction env req opt s rule: requestsLoop.induct)
  case (1 env req opt s)
  show ?case
  proof (cases "BackoffAttemps opt < int (b_attempt s)")
    case True
    then have "requestsLoop env req opt s = s\<lparr>out_closed := True\<rparr>"
      by (subst requestsLoop.simps) simp
    then show ?thesis using "1.prems"(3) [OF "1.prems"(1) True] by simp
  next
    case False
    obtain s' oc where b: "attemptBody env req opt s = (s', oc)"
      by (cases "attemptBody env req opt s")
    show ?thesis
    proof (cases oc)
      case Returned
      have "requestsLoop env req opt s = s'\<lparr>out_closed := True\<rparr>"
        using b False Returned by (subst requestsLoop.simps) simp
      then show ?thesis using "1.prems"(4) [OF "1.prems"(1) False] b Returned by simp
    next
      case Blocked
      have "requestsLoop env req opt s = s'"
        using b False Blocked by (subst requestsLoop.simps) simp
      then show ?thesis using "1.prems"(5) [OF "1.prems"(1) False] b Blocked by simp
    next
      case TimerFired
      have "I s'" using "1.prems"(2) [OF "1.prems"(1) False] b TimerFired by simp
      then have "Q (requestsLoop env req opt s')"
        by (rule "1.IH" [OF False b [symmetric] TimerFired _ "1.prems"(2,3,4,5)])
      moreover have "requestsLoop env req opt s = requestsLoop env req opt s'"
        using b False TimerFired by (subst requestsLoop.simps) simp
      ultimately show ?thesis by simp
    qed
  qed
qed

lemma requestsLoop_invariant:
  assumes "I s"
    and "\<And>s s' oc. I s \<Longrightarrow> \<not> BackoffAttemps opt < int (b_attempt s) \<Longrightarrow>
           attemptBody env req opt s = (s', oc) \<Longrightarrow> I s'"
    and "\<And>s. I s \<Longrightarrow> I (s\<lparr>out_closed := True\<rparr>)"
  shows "I (requestsLoop env req opt s)"
  by (rule requestsLoop_rule [where I = I and Q = I]) (use assms in blast)+

lemma attemptBody_frame:
  assumes "attemptBody env req opt s = (s', oc)"
  defines "k \<equiv> b_attempt s"
  defines "providers \<equiv> Peers (peersAt env k) (RF opt - n_cnt s) (rgs (repl s)) (rcv s)"
  shows "rcv s' = rcv s \<union> set providers"
    and "sent_log s' = sent_log s @ map (\<lambda>p. (k, p, streamAt env k p)) providers"
    and "rgs (repl s') = rgs (repl s)"
    and "pulls (repl s') c =
          (if c = PayloadCID req \<and> providers \<noteq> []
           then Some ((case pulls (repl s) (PayloadCID req) of None \<Rightarrow> {} | Some ps \<Rightarrow> ps)
                       \<union> set providers)
           else pulls (repl s) c)"
    and "out_closed s' = out_closed s"
proof -
  let ?auth = "authorizeProviders (PayloadCID req) providers (repl s, rcv s)"
  let ?sends = "if length providers > 0 then sendAllRequests (streamAt env k) k providers else []"
  let ?s1 = "s\<lparr>repl := fst ?auth, rcv := snd ?auth, sent_log := sent_log s @ ?sends,
               b_attempt := Suc k\<rparr>"
  have w: "waitResults (outReader env) (RF opt)
             (List.map_filter (onTransferEvent req) (eventsAt env k)) ?s1 = (s', oc)"
    using assms(1) unfolding attemptBody_def Let_def k_def providers_def .
  note fr = waitResults_frame [OF w]
  have sends: "?sends = map (\<lambda>p. (k, p, streamAt env k p)) providers"
    by (simp add: sendAllRequests_map)
  show "rcv s' = rcv s \<union> set providers"
    using fr by (simp add: authorizeProviders_seen)
  show "sent_log s' = sent_log s @ map (\<lambda>p. (k, p, streamAt env k p)) providers"
    using fr sends by simp
  show "rgs (repl s') = rgs (repl s)"
    using fr by (simp add: authorizeProviders_rgs)
  show "pulls (repl s') c =
          (if c = PayloadCID req \<and> providers \<noteq> []
           then Some ((case pulls (repl s) (PayloadCID req) of None \<Rightarrow> {} | Some ps \<Rightarrow> ps)
                       \<union> set providers)
           else pulls (repl s) c)"
    using fr by (simp add: authorizeProviders_pulls)
  show "out_closed s' = out_closed s"
    using fr by simp
qed

lemma attemptBody_out:
  assumes "attemptBody env req opt s = (s', oc)"
  defines "recs \<equiv> recordsAt env req (b_attempt s)"
  shows "\<exists>m \<le> length recs. out_ch s' = out_ch s @ take m recs \<and> n_cnt s' = n_cnt s + int m
       \<and> (oc = Returned \<longrightarrow> n_cnt s' = RF opt)
       \<and> (oc = TimerFired \<longrightarrow> m = length recs)
       \<and> (oc = Blocked \<longrightarrow> RF opt \<le> int (length (out_ch s')))
       \<and> (n_cnt s < RF opt \<longrightarrow> n_cnt s' \<le> RF opt \<and> (oc \<noteq> Returned \<longrightarrow> n_cnt s' < RF opt))"
proof -
  obtain s1 where w: "waitResults (outReader env) (RF opt) recs s1 = (s', oc)"
    and s1: "out_ch s1 = out_ch s" "n_cnt s1 = n_cnt s"
    using assms(1) unfolding attemptBody_def Let_def recs_def recordsAt_def by fastforce
  from waitResults_out [OF w] show ?thesis by (auto simp: s1)
qed

lemma set_map_filter_onTransferEvent:
  "rec \<in> set (List.map_filter (onTransferEvent req) evs) \<longleftrightarrow>
     (\<exists>cs \<in> set evs. Status cs = Completed \<and> BaseCID cs = PayloadCID req
        \<and> rec = \<lparr>Provider = Recipient cs, PRecord_PayloadCID = PayloadCID req\<rparr>)"
  by (induction evs)
    (auto simp: List.map_filter_simps onTransferEvent_def Let_def split: option.splits if_splits)

lemma arrivals_root:
  assumes "rec \<in> set (arrivals env req opt)"
  shows "PRecord_PayloadCID rec = PayloadCID req"
  using assms by (auto simp: arrivals_def recordsAt_def set_map_filter_onTransferEvent)

lemma Dispatch_Inr:
  "Dispatch env r req opt = Inr s \<longleftrightarrow>
     \<not> makechanPanics env (RF opt) \<and> s = requestsLoop env req opt (initialState r)"
  by (auto simp: Dispatch_def)

subsection \<open>Seen set and send log\<close>

lemma attemptBody_sent_inv:
  assumes b: "attemptBody env req opt s = (s', oc)"
    and d: "distinct (map (\<lambda>e. fst (snd e)) (sent_log s))"
    and e: "(\<lambda>e. fst (snd e)) ` set (sent_log s) = rcv s"
  shows "distinct (map (\<lambda>e. fst (snd e)) (sent_log s')) \<and>
         (\<lambda>e. fst (snd e)) ` set (sent_log s') = rcv s'"
proof -
  let ?ps = "Peers (peersAt env (b_attempt s)) (RF opt - n_cnt s) (rgs (repl s)) (rcv s)"
  have m: "map (\<lambda>e. fst (snd e)) (sent_log s') = map (\<lambda>e. fst (snd e)) (sent_log s) @ ?ps"
    by (simp add: attemptBody_frame(2) [OF b] comp_def)
  have "set ?ps \<inter> rcv s = {}"
    using Peers_subset by blast
  then have "distinct (map (\<lambda>e. fst (snd e)) (sent_log s'))"
    unfolding m using d e Peers_distinct [of "peersAt env (b_attempt s)"] by auto
  moreover have "(\<lambda>e. fst (snd e)) ` set (sent_log s') = rcv s'"
    using e by (simp add: attemptBody_frame(1,2) [OF b] image_Un image_image)
  ultimately show ?thesis ..
qed

lemma requestsLoop_sent_inv:
  "distinct (map (\<lambda>e. fst (snd e)) (sent_log (requestsLoop env req opt (initialState r)))) \<and>
   (\<lambda>e. fst (snd e)) ` set (sent_log (requestsLoop env req opt (initialState r)))
     = rcv (requestsLoop env req opt (initialState r))"
  by (rule requestsLoop_invariant
        [where I = "\<lambda>s. distinct (map (\<lambda>e. fst (snd e)) (sent_log s)) \<and>
                      (\<lambda>e. fst (snd e)) ` set (sent_log s) = rcv s"])
     (auto simp: initialState_def dest: attemptBody_sent_inv)

lemma distinct_map_eq:
  "distinct (map f xs) \<Longrightarrow> x \<in> set xs \<Longrightarrow> y \<in> set xs \<Longrightarrow> f x = f y \<Longrightarrow> x = y"
  by (auto simp: distinct_map inj_on_def)

subsection \<open>Closing the result channel\<close>

lemma requestsLoop_closing:
  fixes env :: DispatchEnv and req :: Request and opt :: DispatchOptions and r :: Replication
  assumes rf: "0 < RF opt"
  defines "s' \<equiv> requestsLoop env req opt (initialState r)"
  shows "int (length (out_ch s')) = n_cnt s' \<and> out_closed s' \<and>
         (n_cnt s' = RF opt \<and> int (b_attempt s') \<le> BackoffAttemps opt + 1
          \<or> n_cnt s' < RF opt \<and> BackoffAttemps opt < int (b_attempt s')
              \<and> int (b_attempt s') \<le> max 0 (BackoffAttemps opt + 1))"
  unfolding s'_def
proof (rule requestsLoop_rule
    [where I = "\<lambda>s. int (length (out_ch s)) = n_cnt s \<and> n_cnt s < RF opt
                  \<and> int (b_attempt s) \<le> max 0 (BackoffAttemps opt + 1)"], goal_cases)
  case 1
  show ?case using rf by (simp add: initialState_def)
next
  case (2 s s')
  from attemptBody_out [OF 2(3)] attemptBody_attempt [OF 2(3)] 2(1,2)
  show ?case by auto
next
  case (3 s)
  then show ?case by simp
next
  case (4 s s')
  from attemptBody_out [OF 4(3)] attemptBody_attempt [OF 4(3)] 4(1,2)
  show ?case by auto
next
  case (5 s s')
  from attemptBody_out [OF 5(3)] 5(1)
  show ?case by auto
qed

lemma concat_upt_split:
  "j \<le> N \<Longrightarrow> concat (map f [0..<N]) = concat (map f [0..<j]) @ concat (map f [j..<N])"
  using upt_add_eq_append [of 0 j "N - j"] by simp

lemma take_prefix_length:
  "length (xs @ take m ys) = n \<Longrightarrow> take n (xs @ ys @ zs) = xs @ take m ys"
  by (induction xs arbitrary: n) (auto simp: min_def take_Suc_conv_app_nth split: if_splits)

lemma requestsLoop_out:
  fixes env :: DispatchEnv and req :: Request and opt :: DispatchOptions and r :: Replication
  assumes rf: "0 < RF opt"
  shows "out_ch (requestsLoop env req opt (initialState r)) = take (nat (RF opt)) (arrivals env req opt)"
proof (rule requestsLoop_rule
    [where I = "\<lambda>s. out_ch s = concat (map (recordsAt env req) [0..<b_attempt s]) \<and>
                  int (length (out_ch s)) = n_cnt s \<and> n_cnt s < RF opt \<and>
                  int (b_attempt s) \<le> max 0 (BackoffAttemps opt + 1)"], goal_cases)
  case 1
  show ?case using rf by (simp add: initialState_def)
next
  case (2 s s')
  from attemptBody_out [OF 2(3)] attemptBody_attempt [OF 2(3)] 2(1,2)
  show ?case by auto
next
  case (3 s)
  then have b: "b_attempt s = nat (BackoffAttemps opt + 1)" by auto
  have "length (out_ch s) \<le> nat (RF opt)" using 3(1) by linarith
  then have "take (nat (RF opt)) (out_ch s) = out_ch s" by simp
  then show ?case using 3(1) b by (simp add: arrivals_def)
next
  case (4 s s')
  let ?k = "b_attempt s"
  let ?N = "nat (BackoffAttemps opt + 1)"
  from attemptBody_out [OF 4(3)] obtain m where
    o: "out_ch s' = out_ch s @ take m (recordsAt env req ?k)" and n: "n_cnt s' = n_cnt s + int m"
    and f: "n_cnt s' = RF opt" and m: "m \<le> length (recordsAt env req ?k)"
    by auto
  from 4(1) have l: "int (length (out_ch s)) = n_cnt s" by blast
  have "int (length (out_ch s @ take m (recordsAt env req ?k))) = RF opt"
    using l n f m by simp
  then have len: "length (out_ch s @ take m (recordsAt env req ?k)) = nat (RF opt)"
    by linarith
  have k: "Suc ?k \<le> ?N" using 4(2) by simp
  have "arrivals env req opt
          = concat (map (recordsAt env req) [0..<Suc ?k]) @ concat (map (recordsAt env req) [Suc ?k..<?N])"
    unfolding arrivals_def by (rule concat_upt_split [OF k])
  also have "\<dots> = out_ch s @ recordsAt env req ?k @ concat (map (recordsAt env req) [Suc ?k..<?N])"
    using 4(1) by simp
  finally show ?case
    using take_prefix_length [OF len] o by simp
next
  case (5 s s')
  from attemptBody_out [OF 5(3)] 5(1)
  show ?case by auto
qed

lemma requestsLoop_attempts:
  fixes env :: DispatchEnv and req :: Request and opt :: DispatchOptions and r :: Replication
  assumes rf: "0 < RF opt"
  shows "b_attempt (requestsLoop env req opt (initialState r))
           = closingAttempt (nat (RF opt))
               (map (recordsAt env req) [0..<nat (BackoffAttemps opt + 1)])"
proof -
  let ?N = "nat (BackoffAttemps opt + 1)"
  let ?C = "closingAttempt (nat (RF opt)) (map (recordsAt env req) [0..<?N])"
  let ?rest = "\<lambda>s. closingAttempt (nat (RF opt - n_cnt s))
                     (map (recordsAt env req) [b_attempt s..<?N])"
  show ?thesis
  proof (rule requestsLoop_rule
      [where I = "\<lambda>s. int (length (out_ch s)) = n_cnt s \<and> n_cnt s < RF opt \<and>
                    b_attempt s \<le> ?N \<and> b_attempt s + ?rest s = ?C"], goal_cases)
    case 1
    show ?case using rf by (simp add: initialState_def)
  next
    case (2 s s')
    let ?k = "b_attempt s"
    from 2(2) have k: "?k < ?N" by simp
    then have u: "[?k..<?N] = ?k # [Suc ?k..<?N]" by (simp add: upt_conv_Cons)
    from attemptBody_out [OF 2(3)] 2(1) have
      n: "n_cnt s' = n_cnt s + int (length (recordsAt env req ?k))" and lt: "n_cnt s' < RF opt"
      and l: "int (length (out_ch s')) = n_cnt s'"
      by auto
    have a: "b_attempt s' = Suc ?k" by (rule attemptBody_attempt [OF 2(3)])
    have gt: "\<not> nat (RF opt - n_cnt s) \<le> length (recordsAt env req ?k)"
      using n lt by linarith
    have nd: "nat (RF opt - n_cnt s) - length (recordsAt env req ?k) = nat (RF opt - n_cnt s')"
      using n lt by linarith
    have "?rest s = Suc (?rest s')"
      unfolding u a list.map closingAttempt.simps nd using gt by simp
    then have "b_attempt s' + ?rest s' = ?C"
      using 2(1) a by simp
    then show ?case
      using k l lt a by simp
  next
    case (3 s)
    from 3(1) have le: "b_attempt s \<le> ?N" by blast
    have "b_attempt s = ?N" using le 3(2) by linarith
    then show ?case using 3(1) by simp
  next
    case (4 s s')
    let ?k = "b_attempt s"
    from 4(2) have k: "?k < ?N" by simp
    then have u: "[?k..<?N] = ?k # [Suc ?k..<?N]" by (simp add: upt_conv_Cons)
    from attemptBody_out [OF 4(3)] obtain m where
      m: "m \<le> length (recordsAt env req ?k)" and n: "n_cnt s' = n_cnt s + int m"
      and f: "n_cnt s' = RF opt"
      by auto
    have "nat (RF opt - n_cnt s) \<le> length (recordsAt env req ?k)"
      using m n f by simp
    then have "?rest s = 1" by (simp add: u)
    then show ?case using 4(1) attemptBody_attempt [OF 4(3)] by simp
  next
    case (5 s s')
    from attemptBody_out [OF 5(3)] 5(1)
    show ?case by auto
  qed
qed

subsection \<open>What was sent and authorized\<close>

lemma attemptBody_sends_inv:
  assumes b: "attemptBody env req opt s = (s', oc)"
    and i: "rgs (repl s) = R \<and>
            (\<forall>e \<in> set (sent_log s). fst e < b_attempt s
               \<and> snd (snd e) = streamAt env (fst e) (fst (snd e))
               \<and> matchesRegions (peersAt env (fst e)) R (fst (snd e))
               \<and> fst (snd e) \<in> rcv s) \<and>
            (\<forall>p \<in> rcv s. \<exists>S. pulls (repl s) (PayloadCID req) = Some S \<and> p \<in> S)"
  shows "rgs (repl s') = R \<and>
            (\<forall>e \<in> set (sent_log s'). fst e < b_attempt s'
               \<and> snd (snd e) = streamAt env (fst e) (fst (snd e))
               \<and> matchesRegions (peersAt env (fst e)) R (fst (snd e))
               \<and> fst (snd e) \<in> rcv s') \<and>
            (\<forall>p \<in> rcv s'. \<exists>S. pulls (repl s') (PayloadCID req) = Some S \<and> p \<in> S)"
proof -
  let ?k = "b_attempt s"
  let ?ps = "Peers (peersAt env ?k) (RF opt - n_cnt s) (rgs (repl s)) (rcv s)"
  note fr = attemptBody_frame [OF b]
  have a: "b_attempt s' = Suc ?k" by (rule attemptBody_attempt [OF b])
  have ps: "\<forall>p \<in> set ?ps. matchesRegions (peersAt env ?k) R p"
    using Peers_subset i by blast
  have 1: "rgs (repl s') = R" using fr(3) i by simp
  have 2: "\<forall>e \<in> set (sent_log s'). fst e < b_attempt s'
               \<and> snd (snd e) = streamAt env (fst e) (fst (snd e))
               \<and> matchesRegions (peersAt env (fst e)) R (fst (snd e))
               \<and> fst (snd e) \<in> rcv s'"
    using i ps unfolding fr(1) fr(2) a by auto
  have 3: "\<forall>p \<in> rcv s'. \<exists>S. pulls (repl s') (PayloadCID req) = Some S \<and> p \<in> S"
  proof
    fix p assume p: "p \<in> rcv s'"
    show "\<exists>S. pulls (repl s') (PayloadCID req) = Some S \<and> p \<in> S"
    proof (cases "?ps = []")
      case True
      then have "rcv s' = rcv s" "pulls (repl s') (PayloadCID req) = pulls (repl s) (PayloadCID req)"
        using fr(1) fr(4) [of "PayloadCID req"] by simp_all
      then show ?thesis using i p by simp
    next
      case False
      then have pl: "pulls (repl s') (PayloadCID req)
              = Some ((case pulls (repl s) (PayloadCID req) of None \<Rightarrow> {} | Some ps \<Rightarrow> ps)
                       \<union> set ?ps)"
        using fr(4) [of "PayloadCID req"] by simp
      from p fr(1) have "p \<in> rcv s \<or> p \<in> set ?ps" by auto
      then have "p \<in> (case pulls (repl s) (PayloadCID req) of None \<Rightarrow> {} | Some ps \<Rightarrow> ps)
                       \<union> set ?ps"
      proof
        assume "p \<in> rcv s"
        with i obtain S where "pulls (repl s) (PayloadCID req) = Some S" "p \<in> S" by blast
        then show ?thesis by simp
      next
        assume "p \<in> set ?ps"
        then show ?thesis by simp
      qed
      with pl show ?thesis by blast
    qed
  qed
  from 1 2 3 show ?thesis by blast
qed

lemma requestsLoop_sends_inv:
  fixes env :: DispatchEnv and req :: Request and opt :: DispatchOptions and r :: Replication
  defines "s \<equiv> requestsLoop env req opt (initialState r)"
  assumes e: "e \<in> set (sent_log s)"
  shows "fst e < b_attempt s"
    and "snd (snd e) = streamAt env (fst e) (fst (snd e))"
    and "matchesRegions (peersAt env (fst e)) (rgs r) (fst (snd e))"
    and "fst (snd e) \<in> rcv s"
    and "ValidatePull (repl s) (fst (snd e)) voucher (PayloadCID req) selector = Inr None"
proof -
  have "rgs (repl s) = rgs r \<and>
            (\<forall>e \<in> set (sent_log s). fst e < b_attempt s
               \<and> snd (snd e) = streamAt env (fst e) (fst (snd e))
               \<and> matchesRegions (peersAt env (fst e)) (rgs r) (fst (snd e))
               \<and> fst (snd e) \<in> rcv s) \<and>
            (\<forall>p \<in> rcv s. \<exists>S. pulls (repl s) (PayloadCID req) = Some S \<and> p \<in> S)"
    unfolding s_def
  proof (rule requestsLoop_invariant
        [where I = "\<lambda>s. rgs (repl s) = rgs r \<and>
            (\<forall>e \<in> set (sent_log s). fst e < b_attempt s
               \<and> snd (snd e) = streamAt env (fst e) (fst (snd e))
               \<and> matchesRegions (peersAt env (fst e)) (rgs r) (fst (snd e))
               \<and> fst (snd e) \<in> rcv s) \<and>
            (\<forall>p \<in> rcv s. \<exists>S. pulls (repl s) (PayloadCID req) = Some S \<and> p \<in> S)"],
        goal_cases)
    case 1
    show ?case by (simp add: initialState_def)
  next
    case (2 s s' oc)
    from attemptBody_sends_inv [OF 2(3) 2(1)] show ?case .
  next
    case (3 s)
    then show ?case by simp
  qed
  then have all: "\<forall>e \<in> set (sent_log s). fst e < b_attempt s
               \<and> snd (snd e) = streamAt env (fst e) (fst (snd e))
               \<and> matchesRegions (peersAt env (fst e)) (rgs r) (fst (snd e))
               \<and> fst (snd e) \<in> rcv s"
    and au: "\<forall>p \<in> rcv s. \<exists>S. pulls (repl s) (PayloadCID req) = Some S \<and> p \<in> S"
    by blast+
  from all e show "fst e < b_attempt s"
    and "snd (snd e) = streamAt env (fst e) (fst (snd e))"
    and "matchesRegions (peersAt env (fst e)) (rgs r) (fst (snd e))"
    and in_rcv: "fst (snd e) \<in> rcv s"
    by blast+
  from au in_rcv obtain S where "pulls (repl s) (PayloadCID req) = Some S" "fst (snd e) \<in> S"
    by blast
  then show "ValidatePull (repl s) (fst (snd e)) voucher (PayloadCID req) selector = Inr None"
    by (simp add: ValidatePull_def)
qed

lemma attemptBody_log_inv:
  assumes b: "attemptBody env req opt s = (s', oc)"
    and n: "n_cnt s = int (length (concat (map (recordsAt env req) [0..<b_attempt s])))"
    and i: "rgs (repl s) = R \<and>
            (\<forall>e \<in> set (sent_log s). fst e < b_attempt s) \<and>
            rcv s = (\<lambda>e. fst (snd e)) ` set (sent_log s) \<and>
            (\<forall>k < b_attempt s. sentAt s k =
               Peers (peersAt env k)
                 (RF opt - int (length (concat (map (recordsAt env req) [0..<k]))))
                 R (sentBefore s k))"
  shows "rgs (repl s') = R \<and>
            (\<forall>e \<in> set (sent_log s'). fst e < b_attempt s') \<and>
            rcv s' = (\<lambda>e. fst (snd e)) ` set (sent_log s') \<and>
            (\<forall>k < b_attempt s'. sentAt s' k =
               Peers (peersAt env k)
                 (RF opt - int (length (concat (map (recordsAt env req) [0..<k]))))
                 R (sentBefore s' k))"
proof -
  let ?k = "b_attempt s"
  let ?ps = "Peers (peersAt env ?k) (RF opt - n_cnt s) (rgs (repl s)) (rcv s)"
  let ?new = "map (\<lambda>p. (?k, p, streamAt env ?k p)) ?ps"
  note fr = attemptBody_frame [OF b]
  have a: "b_attempt s' = Suc ?k" by (rule attemptBody_attempt [OF b])
  have old: "\<forall>e \<in> set (sent_log s). fst e < ?k" using i by blast
  have fnew: "filter (\<lambda>e. fst e = j) ?new = (if j = ?k then ?new else [])" for j
    by (induction ?ps) (auto simp: filter_empty_conv)
  have fnew_lt: "filter (\<lambda>e. fst e < j) ?new = (if ?k < j then ?new else [])" for j
    by (induction ?ps) (auto simp: filter_empty_conv)
  have fold_eq: "filter (\<lambda>e. fst e = ?k) (sent_log s) = []"
    using old by (auto simp: filter_empty_conv)
  have fold_lt: "filter (\<lambda>e. fst e < ?k) (sent_log s) = sent_log s"
    using old by (simp add: filter_id_conv)
  have 1: "rgs (repl s') = R" using fr(3) i by simp
  have 2: "\<forall>e \<in> set (sent_log s'). fst e < b_attempt s'"
    using old unfolding fr(2) a by auto
  have 3: "rcv s' = (\<lambda>e. fst (snd e)) ` set (sent_log s')"
    using i by (simp add: fr(1) fr(2) image_Un image_image)
  have 4: "sentAt s' j =
               Peers (peersAt env j)
                 (RF opt - int (length (concat (map (recordsAt env req) [0..<j]))))
                 R (sentBefore s' j)" if j: "j < b_attempt s'" for j
  proof (cases "j = ?k")
    case True
    have "sentAt s' ?k = ?ps"
      unfolding sentAt_def fr(2) by (simp add: fold_eq fnew comp_def)
    moreover have "sentBefore s' ?k = rcv s"
      unfolding sentBefore_def fr(2) using i by (simp add: fold_lt fnew_lt)
    ultimately show ?thesis using True n i by simp
  next
    case False
    with j a have lt: "j < ?k" by simp
    have "sentAt s' j = sentAt s j"
      unfolding sentAt_def fr(2) using lt by (simp add: fnew)
    moreover have "sentBefore s' j = sentBefore s j"
      unfolding sentBefore_def fr(2) using lt by (simp add: fnew_lt)
    ultimately show ?thesis using i lt by simp
  qed
  from 1 2 3 4 show ?thesis by blast
qed

lemma requestsLoop_log:
  fixes env :: DispatchEnv and req :: Request and opt :: DispatchOptions and r :: Replication
  defines "s \<equiv> requestsLoop env req opt (initialState r)"
  shows "rcv s = (\<lambda>e. fst (snd e)) ` set (sent_log s)"
    and "k < b_attempt s \<Longrightarrow>
           sentAt s k =
             Peers (peersAt env k)
               (RF opt - int (length (concat (map (recordsAt env req) [0..<k]))))
               (rgs r) (sentBefore s k)"
proof -
  let ?J = "\<lambda>s. rgs (repl s) = rgs r \<and>
            (\<forall>e \<in> set (sent_log s). fst e < b_attempt s) \<and>
            rcv s = (\<lambda>e. fst (snd e)) ` set (sent_log s) \<and>
            (\<forall>k < b_attempt s. sentAt s k =
               Peers (peersAt env k)
                 (RF opt - int (length (concat (map (recordsAt env req) [0..<k]))))
                 (rgs r) (sentBefore s k))"
  have c: "?J (s\<lparr>out_closed := True\<rparr>)" if "?J s" for s :: DispatchState
    using that by (simp add: sentAt_def sentBefore_def)
  have "?J s"
    unfolding s_def
  proof (rule requestsLoop_rule
      [where I = "\<lambda>s. n_cnt s = int (length (concat (map (recordsAt env req) [0..<b_attempt s])))
                    \<and> ?J s"], goal_cases)
    case 1
    show ?case by (simp add: initialState_def sentAt_def sentBefore_def)
  next
    case (2 s s')
    from 2(1) have n: "n_cnt s = int (length (concat (map (recordsAt env req) [0..<b_attempt s])))"
      and j: "?J s" by blast+
    from attemptBody_out [OF 2(3)] attemptBody_attempt [OF 2(3)] n
    have "n_cnt s' = int (length (concat (map (recordsAt env req) [0..<b_attempt s'])))"
      by auto
    moreover have "?J s'" by (rule attemptBody_log_inv [OF 2(3) n j])
    ultimately show ?case by blast
  next
    case (3 s)
    then have "?J s" by blast
    then show ?case by (rule c)
  next
    case (4 s s')
    from 4(1) have n: "n_cnt s = int (length (concat (map (recordsAt env req) [0..<b_attempt s])))"
      and j: "?J s" by blast+
    have "?J s'" by (rule attemptBody_log_inv [OF 4(3) n j])
    then show ?case by (rule c)
  next
    case (5 s s')
    from 5(1) have n: "n_cnt s = int (length (concat (map (recordsAt env req) [0..<b_attempt s])))"
      and j: "?J s" by blast+
    show ?case by (rule attemptBody_log_inv [OF 5(3) n j])
  qed
  then show "rcv s = (\<lambda>e. fst (snd e)) ` set (sent_log s)"
    and "k < b_attempt s \<Longrightarrow>
           sentAt s k =
             Peers (peersAt env k)
               (RF opt - int (length (concat (map (recordsAt env req) [0..<k]))))
               (rgs r) (sentBefore s k)"
    by blast+
qed

lemma distinct_mset_subseteq:
  "mset xs \<subseteq># mset ys \<Longrightarrow> distinct ys \<Longrightarrow> distinct xs"
proof (induction xs arbitrary: ys)
  case Nil
  show ?case by simp
next
  case (Cons x xs)
  from Cons.prems(1) have x: "x \<in># mset ys" by (simp add: insert_subset_eq_iff)
  have sub: "mset xs \<subseteq># mset (remove1 x ys)"
    using Cons.prems(1) x by (simp add: insert_subset_eq_iff subset_mset.less_imp_le)
  have d: "distinct (remove1 x ys)" using Cons.prems(2) by simp
  have "distinct xs" by (rule Cons.IH [OF sub d])
  moreover have "x \<notin> set xs"
  proof
    assume "x \<in> set xs"
    moreover have "set xs \<subseteq> set (remove1 x ys)"
      using set_mset_mono [OF sub] unfolding set_mset_mset .
    ultimately have "x \<in> set (remove1 x ys)" by blast
    then show False using Cons.prems(2) by simp
  qed
  ultimately show ?case by simp
qed

lemma requestsLoop_quorum:
  fixes env :: DispatchEnv and req :: Request and opt :: DispatchOptions and r :: Replication
  assumes rf: "0 < RF opt" and reach: "peersReachable env r req opt"
  defines "s \<equiv> requestsLoop env req opt (initialState r)"
  shows "int (length (out_ch s)) = RF opt"
    and "distinct (map Provider (out_ch s))"
    and "rec \<in> set (out_ch s) \<Longrightarrow> \<exists>k. (k, Provider rec, Written) \<in> set (sent_log s)"
proof -
  let ?arr = "arrivals env req opt"
  have out: "out_ch s = take (nat (RF opt)) ?arr"
    unfolding s_def by (rule requestsLoop_out [OF rf])
  have len: "nat (RF opt) \<le> length ?arr"
    and sub: "mset (map Provider ?arr) \<subseteq># mset (writtenPeers s)"
    using reach by (simp_all add: peersReachable_def s_def)
  have "distinct (map (\<lambda>e. fst (snd e)) (sent_log s))"
    unfolding s_def using requestsLoop_sent_inv [of env req opt r] by blast
  then have "distinct (writtenPeers s)"
    unfolding writtenPeers_def by (rule distinct_map_filter)
  then have d: "distinct (map Provider ?arr)"
    by (rule distinct_mset_subseteq [OF sub])
  show "int (length (out_ch s)) = RF opt"
    using len rf by (simp add: out min_def)
  show "distinct (map Provider (out_ch s))"
    using d by (simp add: out take_map [symmetric] distinct_take)
  show "\<exists>k. (k, Provider rec, Written) \<in> set (sent_log s)" if "rec \<in> set (out_ch s)"
  proof -
    from that have "Provider rec \<in> set (map Provider ?arr)"
      unfolding out by (auto dest: in_set_takeD)
    moreover have "set (map Provider ?arr) \<subseteq> set (writtenPeers s)"
      using set_mset_mono [OF sub] unfolding set_mset_mset .
    ultimately have "Provider rec \<in> set (writtenPeers s)" by blast
    then obtain e where "e \<in> set (sent_log s)" "snd (snd e) = Written" "fst (snd e) = Provider rec"
      unfolding writtenPeers_def by auto
    then have "(fst e, Provider rec, Written) \<in> set (sent_log s)"
      by (metis prod.collapse)
    then show ?thesis ..
  qed
qed

lemmas run_defs =
  Dispatch_def makechanPanics_def initialState_def attemptBody_def Peers_def matchesRegions_def
  regionsIntersect_def NewReplication_def asia_def africa_def AsiaRegion_def AfricaRegion_def
  List.map_filter_def onTransferEvent_def Let_def req0_def opt_rf1_def opt_rf2_def
  requestsLoop.simps

text \<open>
  C10. Within one \<^verbatim>\<open>Dispatch\<close> run no peer is turned to twice: the peers of the send log
  are pairwise distinct. The seen set is exactly the set of peers in the log, whatever
  became of their streams: a peer enters it when it is selected, also when opening or
  writing the stream fails, and \<^verbatim>\<open>Peers\<close> leaves the seen peers out in every later attempt.
\<close>

theorem Dispatch_sends_each_peer_once:
  assumes "Dispatch env r req opt = Inr s"
  shows "distinct (map (\<lambda>e. fst (snd e)) (sent_log s)) \<and>
         rcv s = (\<lambda>e. fst (snd e)) ` set (sent_log s)"
  using assms requestsLoop_sent_inv [of env req opt r] by (auto simp: Dispatch_Inr)

text \<open>
  C10 (witness). In \<open>env_no_reply\<close> the stream to \<open>peerA\<close> cannot be opened; both peers
  are in the seen set after the run and each occurs once in the log.
\<close>

theorem Dispatch_sends_each_peer_once_witness:
  "sent_log (projr (Dispatch env_no_reply (NewReplication [asia]) req0 opt_rf2))
     = [(0, ''peerA'', OpenFailed), (0, ''peerB'', Written)] \<and>
   distinct (map (\<lambda>e. fst (snd e))
     (sent_log (projr (Dispatch env_no_reply (NewReplication [asia]) req0 opt_rf2)))) \<and>
   rcv (projr (Dispatch env_no_reply (NewReplication [asia]) req0 opt_rf2))
     = {''peerA'', ''peerB''}"
proof -
  let ?D = "Dispatch env_no_reply (NewReplication [asia]) req0 opt_rf2"
  have h: "?D = Inr (projr ?D)"
    by (simp add: Dispatch_def makechanPanics_def opt_rf2_def env_no_reply_def)
  have l: "sent_log (projr ?D) = [(0, ''peerA'', OpenFailed), (0, ''peerB'', Written)]"
    by (simp add: run_defs env_no_reply_def)
  show ?thesis
    using Dispatch_sends_each_peer_once [OF h] l by auto
qed

text \<open>
  C8 (counterexample). The claim has a peer whose pull was rejected turned to again in a
  later attempt. In \<open>env_rejected\<close> the requests to \<open>peerA\<close> and \<open>peerB\<close> are written in
  attempt 0 and the transport reports both pulls as failed during the first wait. The
  run makes the attempts 0, 1 and 2 and closes the channel without a record; both peers
  are still connected and in the region in the later attempts (\<^verbatim>\<open>Peers\<close> would return
  them but for the seen set), and neither is sent a second \<^verbatim>\<open>Request\<close>.
\<close>

theorem Dispatch_no_retry_counterexample:
  "\<not> isl (Dispatch env_rejected (NewReplication [asia]) req0 opt_rf2) \<and>
   sent_log (projr (Dispatch env_rejected (NewReplication [asia]) req0 opt_rf2))
     = [(0, ''peerA'', Written), (0, ''peerB'', Written)] \<and>
   out_ch (projr (Dispatch env_rejected (NewReplication [asia]) req0 opt_rf2)) = [] \<and>
   out_closed (projr (Dispatch env_rejected (NewReplication [asia]) req0 opt_rf2)) \<and>
   b_attempt (projr (Dispatch env_rejected (NewReplication [asia]) req0 opt_rf2)) = 3 \<and>
   Peers (peersAt env_rejected 1) 2 [asia] {} = [''peerA'', ''peerB''] \<and>
   Peers (peersAt env_rejected 2) 2 [asia] {} = [''peerA'', ''peerB'']"
  by (simp add: run_defs env_rejected_def)

text \<open>
  C8 (amended). A peer whose \<^verbatim>\<open>Request\<close> was written to its stream is sent no second
  \<^verbatim>\<open>Request\<close> in the same \<^verbatim>\<open>Dispatch\<close> run, whether or not its pull is accepted and
  completes: every entry of the send log for that peer is the one entry of the attempt
  in which it was selected, and the peer is in the seen set that every later attempt
  hands to \<^verbatim>\<open>Peers\<close> as the exclusion set.
\<close>

theorem Dispatch_never_retries:
  assumes "Dispatch env r req opt = Inr s"
    and "(k, p, Written) \<in> set (sent_log s)" and "(k', p, oc') \<in> set (sent_log s)"
  shows "k' = k \<and> oc' = Written \<and> p \<in> rcv s"
proof -
  have d: "distinct (map (\<lambda>e. fst (snd e)) (sent_log s))"
    and e: "(\<lambda>e. fst (snd e)) ` set (sent_log s) = rcv s"
    using assms(1) requestsLoop_sent_inv [of env req opt r] by (auto simp: Dispatch_Inr)
  from distinct_map_eq [OF d assms(2,3)] have "(k, p, Written) = (k', p, oc')" by simp
  moreover have "p \<in> rcv s" using e assms(2) by force
  ultimately show ?thesis by simp
qed

text \<open>
  C8 (witness of the amended claim), in \<open>env_rejected\<close>.
\<close>

theorem Dispatch_never_retries_witness:
  "(0, ''peerB'', Written)
     \<in> set (sent_log (projr (Dispatch env_rejected (NewReplication [asia]) req0 opt_rf2))) \<and>
   ''peerB'' \<in> rcv (projr (Dispatch env_rejected (NewReplication [asia]) req0 opt_rf2))"
proof -
  let ?D = "Dispatch env_rejected (NewReplication [asia]) req0 opt_rf2"
  have h: "?D = Inr (projr ?D)"
    by (simp add: Dispatch_def makechanPanics_def opt_rf2_def env_rejected_def)
  have l: "(0, ''peerB'', Written) \<in> set (sent_log (projr ?D))"
    by (simp add: run_defs env_rejected_def)
  show ?thesis
    using Dispatch_never_retries [OF h l l] l by simp
qed

text \<open>
  C7 (the code at the failing input). The dispatcher's region is Asia; \<open>peerA\<close> (Asia)
  and \<open>peerX\<close> (Africa only) are connected. The one \<^verbatim>\<open>Request\<close> goes to \<open>peerA\<close>, the
  only peer \<^verbatim>\<open>Peers\<close> selects under the region filter. During the first wait the
  transport, which other transfers share, reports a completed transfer of the same root
  to \<open>peerX\<close>; the subscriber takes its recipient as a provider, and the one record on
  the result channel names \<open>peerX\<close>, a peer that was never selected and whose
  advertised regions are disjoint from the dispatcher's.
\<close>

theorem Dispatch_yields_foreign_recipient:
  "\<not> isl (Dispatch env_foreign (NewReplication [asia]) req0 opt_rf1) \<and>
   out_ch (projr (Dispatch env_foreign (NewReplication [asia]) req0 opt_rf1))
     = [\<lparr>Provider = ''peerX'', PRecord_PayloadCID = ''root''\<rparr>] \<and>
   out_closed (projr (Dispatch env_foreign (NewReplication [asia]) req0 opt_rf1)) \<and>
   sent_log (projr (Dispatch env_foreign (NewReplication [asia]) req0 opt_rf1))
     = [(0, ''peerA'', Written)] \<and>
   rcv (projr (Dispatch env_foreign (NewReplication [asia]) req0 opt_rf1)) = {''peerA''} \<and>
   Peers (peersAt env_foreign 0) 1 [asia] {} = [''peerA''] \<and>
   map_of (peersAt env_foreign 0) ''peerX'' = Some [africa] \<and>
   \<not> regionsIntersect [africa] [asia]"
  by (simp add: run_defs env_foreign_def)

text \<open>
  C6 (counterexample). Four runs against the claim as stated. With \<^verbatim>\<open>RF = -1\<close>, and
  with an \<^verbatim>\<open>RF\<close> above the largest capacity of a channel, \<^verbatim>\<open>Dispatch\<close> panics in
  \<^verbatim>\<open>make\<close>: no loop runs and no channel is returned. With
  \<^verbatim>\<open>RF = 0\<close> and a caller that does not receive, the goroutine is parked in the send of
  the first record on the unbuffered \<^verbatim>\<open>out\<close>, and the channel is never closed. In
  \<open>env_dup\<close>, with \<^verbatim>\<open>RF = 2\<close> and two in-region peers that both get their \<^verbatim>\<open>Request\<close>
  and complete their pulls, the two records on the channel name the same provider.
\<close>

theorem Dispatch_closes_counterexample:
  "Dispatch env_quorum (NewReplication [asia]) req0 (opt_rf2\<lparr>RF := - 1\<rparr>)
     = Inl (Panic ''makechan: size out of range'') \<and>
   Dispatch env_quorum (NewReplication [asia]) req0 (opt_rf2\<lparr>RF := 2 ^ 43\<rparr>)
     = Inl (Panic ''makechan: size out of range'') \<and>
   \<not> out_closed (projr (Dispatch (env_quorum\<lparr>outReader := False\<rparr>) (NewReplication [asia]) req0
                          (opt_rf2\<lparr>RF := 0\<rparr>))) \<and>
   out_ch (projr (Dispatch (env_quorum\<lparr>outReader := False\<rparr>) (NewReplication [asia]) req0
                    (opt_rf2\<lparr>RF := 0\<rparr>))) = [] \<and>
   out_closed (projr (Dispatch env_dup (NewReplication [asia]) req0 opt_rf2)) \<and>
   map Provider (out_ch (projr (Dispatch env_dup (NewReplication [asia]) req0 opt_rf2)))
     = [''peerA'', ''peerA''] \<and>
   sent_log (projr (Dispatch env_dup (NewReplication [asia]) req0 opt_rf2))
     = [(0, ''peerA'', Written), (0, ''peerB'', Written)]"
  by (simp add: run_defs env_quorum_def env_dup_def)

text \<open>
  C6 (amended). For a positive \<^verbatim>\<open>RF\<close> that \<^verbatim>\<open>make\<close> accepts, \<^verbatim>\<open>Dispatch\<close> returns a
  channel, the loop terminates and the channel is closed. It is closed exactly when the
  count of confirmations reaches \<^verbatim>\<open>RF\<close> or the attempts are used up: the attempt counter
  at the moment of closing is the number of waits up to and including the one in which
  the \<^verbatim>\<open>RF\<close>-th record arrives, or the number of all the waits the options allow when
  fewer than \<^verbatim>\<open>RF\<close> records arrive during them (\<open>closingAttempt\<close>); the channel
  holds the first \<^verbatim>\<open>RF\<close> of the records that arrive during the waits, as many as
  confirmations were counted, and every record carries the request's payload CID. Each
  attempt the run made turned to exactly the peers \<^verbatim>\<open>Peers\<close> returned for the number of
  confirmations still missing, the dispatcher's regions and the peers turned to before;
  every such peer is in the seen set and authorized for the pull of the root, its regions
  meet the dispatcher's in the table of its attempt, and the send log holds what became
  of its stream. With at least
  \<^verbatim>\<open>RF\<close> reachable in-region peers (\<open>peersReachable\<close>) the count reaches \<^verbatim>\<open>RF\<close> and the
  channel holds exactly \<^verbatim>\<open>RF\<close> records from distinct providers, each of them a peer to
  which the \<^verbatim>\<open>Request\<close> was written.
\<close>

theorem Dispatch_closes:
  assumes "0 < RF opt" and "\<not> makechanPanics env (RF opt)"
  shows "\<exists>s. Dispatch env r req opt = Inr s \<and> out_closed s
          \<and> out_ch s = take (nat (RF opt)) (arrivals env req opt)
          \<and> int (length (out_ch s)) = n_cnt s
          \<and> b_attempt s = closingAttempt (nat (RF opt))
                            (map (recordsAt env req) [0..<nat (BackoffAttemps opt + 1)])
          \<and> (n_cnt s = RF opt \<and> int (b_attempt s) \<le> BackoffAttemps opt + 1
             \<or> n_cnt s < RF opt \<and> BackoffAttemps opt < int (b_attempt s)
                \<and> int (b_attempt s) \<le> max 0 (BackoffAttemps opt + 1))
          \<and> (\<forall>rec \<in> set (out_ch s). PRecord_PayloadCID rec = PayloadCID req)
          \<and> (\<forall>e \<in> set (sent_log s).
                  fst e < b_attempt s
                \<and> snd (snd e) = streamAt env (fst e) (fst (snd e))
                \<and> matchesRegions (peersAt env (fst e)) (rgs r) (fst (snd e))
                \<and> fst (snd e) \<in> rcv s
                \<and> ValidatePull (repl s) (fst (snd e)) voucher (PayloadCID req) selector
                    = Inr None)
          \<and> rcv s = (\<lambda>e. fst (snd e)) ` set (sent_log s)
          \<and> (\<forall>k < b_attempt s.
                  sentAt s k =
                    Peers (peersAt env k)
                      (RF opt - int (length (concat (map (recordsAt env req) [0..<k]))))
                      (rgs r) (sentBefore s k))
          \<and> (peersReachable env r req opt \<longrightarrow>
                n_cnt s = RF opt
              \<and> int (length (out_ch s)) = RF opt
              \<and> distinct (map Provider (out_ch s))
              \<and> (\<forall>rec \<in> set (out_ch s).
                    \<exists>k. (k, Provider rec, Written) \<in> set (sent_log s)))"
proof -
  let ?s = "requestsLoop env req opt (initialState r)"
  have D: "Dispatch env r req opt = Inr ?s"
    using assms(2) by (simp add: Dispatch_Inr)
  note rf = assms(1)
  have out: "out_ch ?s = take (nat (RF opt)) (arrivals env req opt)"
    by (rule requestsLoop_out [OF rf])
  have roots: "\<forall>rec \<in> set (out_ch ?s). PRecord_PayloadCID rec = PayloadCID req"
    unfolding out by (auto dest: in_set_takeD arrivals_root)
  have att: "b_attempt ?s = closingAttempt (nat (RF opt))
                            (map (recordsAt env req) [0..<nat (BackoffAttemps opt + 1)])"
    by (rule requestsLoop_attempts [OF rf])
  note cl = requestsLoop_closing [OF rf, of env req r]
  have sends: "\<forall>e \<in> set (sent_log ?s).
                  fst e < b_attempt ?s
                \<and> snd (snd e) = streamAt env (fst e) (fst (snd e))
                \<and> matchesRegions (peersAt env (fst e)) (rgs r) (fst (snd e))
                \<and> fst (snd e) \<in> rcv ?s
                \<and> ValidatePull (repl ?s) (fst (snd e)) voucher (PayloadCID req) selector
                    = Inr None"
    using requestsLoop_sends_inv [of _ env req opt r] by blast
  have seen: "rcv ?s = (\<lambda>e. fst (snd e)) ` set (sent_log ?s)"
    by (rule requestsLoop_log(1))
  have log: "\<forall>k < b_attempt ?s.
                  sentAt ?s k =
                    Peers (peersAt env k)
                      (RF opt - int (length (concat (map (recordsAt env req) [0..<k]))))
                      (rgs r) (sentBefore ?s k)"
    using requestsLoop_log(2) [of _ env req opt r] by blast
  have reach: "n_cnt ?s = RF opt
              \<and> int (length (out_ch ?s)) = RF opt
              \<and> distinct (map Provider (out_ch ?s))
              \<and> (\<forall>rec \<in> set (out_ch ?s).
                    \<exists>k. (k, Provider rec, Written) \<in> set (sent_log ?s))"
    if pr: "peersReachable env r req opt"
    using requestsLoop_quorum [OF rf pr] cl by auto
  show ?thesis
    by (rule exI [of _ ?s]) (use D out roots att cl sends seen log reach in blast)
qed

text \<open>
  C6 (witness of the amended claim), in \<open>env_quorum\<close> with \<^verbatim>\<open>RF = 2\<close>: the two Asian
  peers are reachable, and the channel is closed in the first wait with their two
  records.
\<close>

theorem Dispatch_closes_witness:
  "0 < RF opt_rf2 \<and> \<not> makechanPanics env_quorum (RF opt_rf2) \<and>
   peersReachable env_quorum (NewReplication [asia]) req0 opt_rf2 \<and>
   out_ch (projr (Dispatch env_quorum (NewReplication [asia]) req0 opt_rf2))
     = [\<lparr>Provider = ''peerB'', PRecord_PayloadCID = ''root''\<rparr>,
        \<lparr>Provider = ''peerA'', PRecord_PayloadCID = ''root''\<rparr>] \<and>
   out_closed (projr (Dispatch env_quorum (NewReplication [asia]) req0 opt_rf2)) \<and>
   n_cnt (projr (Dispatch env_quorum (NewReplication [asia]) req0 opt_rf2)) = RF opt_rf2 \<and>
   b_attempt (projr (Dispatch env_quorum (NewReplication [asia]) req0 opt_rf2)) = 1 \<and>
   sent_log (projr (Dispatch env_quorum (NewReplication [asia]) req0 opt_rf2))
     = [(0, ''peerA'', Written), (0, ''peerB'', Written)]"
proof -
  have rf: "0 < RF opt_rf2" by (simp add: opt_rf2_def)
  have mk: "\<not> makechanPanics env_quorum (RF opt_rf2)"
    by (simp add: makechanPanics_def opt_rf2_def env_quorum_def)
  have a: "arrivals env_quorum req0 opt_rf2
             = [\<lparr>Provider = ''peerB'', PRecord_PayloadCID = ''root''\<rparr>,
                \<lparr>Provider = ''peerA'', PRecord_PayloadCID = ''root''\<rparr>]"
    by (simp add: arrivals_def recordsAt_def run_defs env_quorum_def upt_rec)
  have c: "map (recordsAt env_quorum req0) [0..<nat (BackoffAttemps opt_rf2 + 1)]
             = [[\<lparr>Provider = ''peerB'', PRecord_PayloadCID = ''root''\<rparr>,
                 \<lparr>Provider = ''peerA'', PRecord_PayloadCID = ''root''\<rparr>], [], []]"
    by (simp add: recordsAt_def run_defs env_quorum_def upt_rec)
  have l: "sent_log (requestsLoop env_quorum req0 opt_rf2 (initialState (NewReplication [asia])))
             = [(0, ''peerA'', Written), (0, ''peerB'', Written)]"
    by (simp add: run_defs env_quorum_def)
  have p: "peersReachable env_quorum (NewReplication [asia]) req0 opt_rf2"
    unfolding peersReachable_def writtenPeers_def l a
    by (simp add: opt_rf2_def)
  let ?D = "Dispatch env_quorum (NewReplication [asia]) req0 opt_rf2"
  from Dispatch_closes [OF rf mk, of "NewReplication [asia]" req0] p
  obtain s where D: "?D = Inr s" and cl: "out_closed s"
    and o: "out_ch s = take (nat (RF opt_rf2)) (arrivals env_quorum req0 opt_rf2)"
    and b: "b_attempt s = closingAttempt (nat (RF opt_rf2))
              (map (recordsAt env_quorum req0) [0..<nat (BackoffAttemps opt_rf2 + 1)])"
    and n: "n_cnt s = RF opt_rf2"
    by blast
  have s: "projr ?D = s" by (simp add: D)
  have s': "s = requestsLoop env_quorum req0 opt_rf2 (initialState (NewReplication [asia]))"
    using D by (simp add: Dispatch_Inr)
  have o': "out_ch s = [\<lparr>Provider = ''peerB'', PRecord_PayloadCID = ''root''\<rparr>,
                       \<lparr>Provider = ''peerA'', PRecord_PayloadCID = ''root''\<rparr>]"
    unfolding o a by (simp add: opt_rf2_def)
  have b': "b_attempt s = 1"
    unfolding b c by (simp add: opt_rf2_def)
  have l': "sent_log s = [(0, ''peerA'', Written), (0, ''peerB'', Written)]"
    unfolding s' by (rule l)
  show ?thesis
    unfolding s using rf mk p cl o' n b' l' by simp
qed

section \<open>Properties of the payment channel\<close>

subsection \<open>Merged funds requests\<close>

lemma sumLoop_eq: "sumLoop acc rs = acc + sum_list (map amt (filter active rs))"
  by (induction rs arbitrary: acc) (auto simp: isActive_def)

lemma mergedFundsReq_sum_eq:
  "mergedFundsReq_sum m = sum_list (map amt (filter active (reqs m)))"
  by (simp add: mergedFundsReq_sum_def sumLoop_eq)

lemma sum_list_cancel:
  "i < length rs \<Longrightarrow>
     sum_list (map amt (filter active (rs[i := (rs ! i)\<lparr>active := False\<rparr>]))) =
     sum_list (map amt (filter active rs)) - (if active (rs ! i) then amt (rs ! i) else 0)"
  by (induction rs arbitrary: i) (auto split: nat.splits)

lemma mergedFundsReq_sum_cancelReq:
  "i < length (reqs m) \<Longrightarrow>
     mergedFundsReq_sum (cancelReq m i) =
     mergedFundsReq_sum m - (if active (reqs m ! i) then amt (reqs m ! i) else 0)"
  by (simp add: mergedFundsReq_sum_eq cancelReq_def checkActive_def sum_list_cancel)

lemma mpoolPush_Inr:
  assumes "mpoolPush env ch msg = (ch', Inr smsg)"
  shows "ch' = ch\<lparr>mpool := mpool ch @ [smsg]\<rparr>" and "Value (sm_Message smsg) = Value msg"
  using assms
  by (auto simp: mpoolPush_def Let_def split: sum.splits prod.splits)

lemma mpoolPush_Inl:
  assumes "mpoolPush env ch msg = (ch', Inl err)"
  shows "ch' = ch"
  using assms
  by (auto simp: mpoolPush_def Let_def split: sum.splits prod.splits)

lemma create_Inr:
  assumes "create env ch amount = (ch', Inr mcid)"
  shows "\<exists>smsg. mpool ch' = mpool ch @ [smsg] \<and> SignedCid env smsg = mcid
           \<and> Value (sm_Message smsg) = amount"
proof -
  let ?msg = "\<lparr>To = ''f01'', From = ch_from ch, Nonce = 0, Value = amount, Method = 2,
          Params = ch_from ch @ '','' @ ch_to ch, GasLimit = 0, GasFeeCap = 0, GasPremium = 0\<rparr>"
  obtain ch1 r where p: "mpoolPush env ch ?msg = (ch1, r)"
    by (cases "mpoolPush env ch ?msg")
  from assms p obtain smsg where r: "r = Inr smsg" 
    by (cases r) (auto simp: create_def message_Create_def)
  from assms p r have "mpool ch' = mpool ch1" "mcid = SignedCid env smsg"
    by (auto simp: create_def message_Create_def CreateChannel_def Let_def)
  with mpoolPush_Inr [OF p [unfolded r]] show ?thesis by auto
qed

lemma create_Inl:
  assumes "create env ch amount = (ch', Inl err)"
  shows "mpool ch' = mpool ch"
proof -
  let ?msg = "\<lparr>To = ''f01'', From = ch_from ch, Nonce = 0, Value = amount, Method = 2,
          Params = ch_from ch @ '','' @ ch_to ch, GasLimit = 0, GasFeeCap = 0, GasPremium = 0\<rparr>"
  obtain ch1 r where p: "mpoolPush env ch ?msg = (ch1, r)"
    by (cases "mpoolPush env ch ?msg")
  from assms p obtain e where r: "r = Inl e" 
    by (cases r) (auto simp: create_def message_Create_def CreateChannel_def Let_def)
  from assms p r have "ch' = ch1"
    by (auto simp: create_def message_Create_def)
  with mpoolPush_Inl [OF p [unfolded r]] show ?thesis by simp
qed

lemma mpool_mutateChannelInfo [simp]: "mpool (mutateChannelInfo ch chid f) = mpool ch"
  by (simp add: mutateChannelInfo_def split: sum.split)

lemma addFunds_Inr:
  assumes "addFunds env ch ci amount = (ch', Inr mcid)"
  shows "\<exists>smsg. mpool ch' = mpool ch @ [smsg] \<and> SignedCid env smsg = mcid
           \<and> Value (sm_Message smsg) = amount"
proof -
  from assms obtain addr where a: "Channel ci = Some addr"
    by (cases "Channel ci") (auto simp: addFunds_def)
  let ?msg = "\<lparr>To = addr, From = Control ci, Nonce = 0, Value = amount,
                       Method = 0, Params = [], GasLimit = 0, GasFeeCap = 0, GasPremium = 0\<rparr>"
  obtain ch1 r where p: "mpoolPush env ch ?msg = (ch1, r)"
    by (cases "mpoolPush env ch ?msg")
  from assms p a obtain smsg where r: "r = Inr smsg" 
    by (cases r) (auto simp: addFunds_def)
  from assms p r a have "mpool ch' = mpool ch1" "mcid = SignedCid env smsg"
    by (auto simp: addFunds_def Let_def)
  with mpoolPush_Inr [OF p [unfolded r]] show ?thesis by auto
qed

lemma addFunds_Inl:
  assumes "addFunds env ch ci amount = (ch', Inl err)"
  shows "mpool ch' = mpool ch"
proof (cases "Channel ci")
  case None
  with assms show ?thesis by (simp add: addFunds_def)
next
  case (Some addr)
  let ?msg = "\<lparr>To = addr, From = Control ci, Nonce = 0, Value = amount,
                       Method = 0, Params = [], GasLimit = 0, GasFeeCap = 0, GasPremium = 0\<rparr>"
  obtain ch1 r where p: "mpoolPush env ch ?msg = (ch1, r)"
    by (cases "mpoolPush env ch ?msg")
  from assms p Some obtain e where r: "r = Inl e" 
    by (cases r) (auto simp: addFunds_def Let_def)
  from assms p r Some have "ch' = ch1"
    by (auto simp: addFunds_def)
  with mpoolPush_Inl [OF p [unfolded r]] show ?thesis by simp
qed

lemma onCompleteAll_length:
  "onCompleteAll cs i rs res = Some rs' \<Longrightarrow> length rs' = length rs"
  by (induction rs arbitrary: i rs') (auto split: if_splits option.splits)

lemma onCompleteAll_nth:
  assumes "onCompleteAll cs i rs res = Some rs'" and "j < length rs"
  shows "(active (rs ! j) \<and> \<not> ctxDone (rs ! j) \<longrightarrow> rs' ! j = (rs ! j)\<lparr>promise := Some res\<rparr>)
       \<and> (\<not> active (rs ! j) \<longrightarrow> rs' ! j = rs ! j)
       \<and> (rs' ! j = rs ! j \<or> rs' ! j = (rs ! j)\<lparr>promise := Some res\<rparr>)"
  using assms
proof (induction rs arbitrary: i j rs')
  case Nil
  then show ?case by simp
next
  case (Cons r rs)
  from Cons.prems(1) obtain r' rest where rs': "rs' = r' # rest"
    and rest: "onCompleteAll cs (Suc i) rs res = Some rest"
    and r': "if isActive r
             then fundsReq_onComplete (receiving cs i) (pickSend cs i) r res = Some r'
             else r' = r"
    by (auto split: if_splits option.splits)
  show ?case
  proof (cases j)
    case 0
    from r' show ?thesis
      unfolding 0 rs' by (auto simp: isActive_def fundsReq_onComplete_def split: if_splits)
  next
    case (Suc j')
    with Cons.prems(2) have "j' < length rs" by simp
    from Cons.IH [OF rest this] show ?thesis
      unfolding Suc rs' by simp
  qed
qed

lemma onCompleteAll_returns:
  "(\<exists>rs'. onCompleteAll cs i rs res = Some rs') \<longleftrightarrow>
     (\<forall>j < length rs. active (rs ! j) \<and> \<not> ctxDone (rs ! j) \<longrightarrow> receiving cs (i + j))"
proof (induction rs arbitrary: i)
  case Nil
  show ?case by simp
next
  case (Cons r rs)
  have hd: "(\<exists>r'. (if isActive r
                   then fundsReq_onComplete (receiving cs i) (pickSend cs i) r res = Some r'
                   else r' = r))
            \<longleftrightarrow> (active r \<and> \<not> ctxDone r \<longrightarrow> receiving cs i)"
    by (auto simp: isActive_def fundsReq_onComplete_def)
  have "(\<exists>rs'. onCompleteAll cs i (r # rs) res = Some rs') \<longleftrightarrow>
          (\<exists>r'. (if isActive r
                 then fundsReq_onComplete (receiving cs i) (pickSend cs i) r res = Some r'
                 else r' = r))
          \<and> (\<exists>rest. onCompleteAll cs (Suc i) rs res = Some rest)"
    by (auto split: option.splits)
  also have "\<dots> \<longleftrightarrow> (active r \<and> \<not> ctxDone r \<longrightarrow> receiving cs i)
          \<and> (\<forall>j < length rs. active (rs ! j) \<and> \<not> ctxDone (rs ! j) \<longrightarrow> receiving cs (Suc i + j))"
    unfolding hd Cons.IH ..
  also have "\<dots> \<longleftrightarrow> (\<forall>j < length (r # rs). active ((r # rs) ! j) \<and> \<not> ctxDone ((r # rs) ! j)
                        \<longrightarrow> receiving cs (i + j))"
    by (auto simp: less_Suc_eq_0_disj)
  finally show ?case .
qed

lemmas chan_defs =
  chain0_def ch_new_def emptyStore_def ch_creating_def ci_creating_def ch_adding_def
  ci_adding_def reqs573_def res0_def newFundsReq_def ci_open_def ch_open_def
  chain_nopush_def callers573_def

lemmas pay_defs =
  submitMerged_def processQueue_def create_def addFunds_def mpoolPush_def message_Create_def
  CreateChannel_def ByFromTo_def ByChannelID_def putChannelInfo_def RemoveChannel_def
  SaveMessageResult_def SaveNewMessage_def mutateChannelInfo_def
  newMergedFundsReq_def checkActive_def setMergeParent_def isActive_def
  mergedFundsReq_sum_def mergedFundsReq_onComplete_def fundsReq_onComplete_def
  waitPaychCreateMsg_def waitForPaychCreateMsg_def waitAddFundsMsg_def waitForAddFundsMsg_def
  msgWaitComplete_def fireMsgComplete_def Lock_def Unlock_def multiLock_Lock_def
  multiLock_Unlock_def Let_def

text \<open>
  C2 (counterexample). Requests for 5, 7 (cancelled) and 3 are merged, and the sum 8 is
  to be added to an open channel. The message pool refuses the push: \<^verbatim>\<open>addFunds\<close>
  returns the error and no message has been submitted, where the claim has exactly one.
\<close>

theorem merged_request_push_fails_counterexample:
  "mergedFundsReq_sum (newMergedFundsReq reqs573) = 8 \<and>
   snd (addFunds chain_nopush ch_open ci_open (mergedFundsReq_sum (newMergedFundsReq reqs573)))
     = Inl (ErrorfWrap ''MpoolPush failed with error: %v'' (Errorf ''mpool: message rejected'')) \<and>
   mpool (fst (addFunds chain_nopush ch_open ci_open
                 (mergedFundsReq_sum (newMergedFundsReq reqs573)))) = []"
  by (simp add: pay_defs chan_defs)

text \<open>
  C2 (amended). The sum of a merged request is the sum of the amounts of its requests
  that are active (cancelled requests add nothing). Whichever of \<^verbatim>\<open>create\<close> and
  \<^verbatim>\<open>addFunds\<close> is called with that sum submits at most one message: when it returns a
  message digest, exactly one message has been added to the message pool, it is the
  message with that digest and its value is the sum; when it returns an error the pool is
  as it was. On completion \<^verbatim>\<open>mergedFundsReq.onComplete\<close> returns if and only if the
  caller of every active request whose context is not done is receiving from its promise,
  and then every such request has received the one result on its promise, every request
  that is not active is as it was, and no request has received anything else.
\<close>

theorem merged_request_one_message:
  assumes "create env ch (mergedFundsReq_sum m) = (ch', out)
           \<or> addFunds env ch ci (mergedFundsReq_sum m) = (ch', out)"
  shows "(\<forall>mcid. out = Inr mcid \<longrightarrow>
            (\<exists>smsg. mpool ch' = mpool ch @ [smsg] \<and> SignedCid env smsg = mcid \<and>
               Value (sm_Message smsg) = sum_list (map amt (filter active (reqs m))))) \<and>
         (\<forall>e. out = Inl e \<longrightarrow> mpool ch' = mpool ch) \<and>
         ((\<exists>m'. mergedFundsReq_onComplete cs m result = Some m') \<longleftrightarrow>
            (\<forall>j < length (reqs m).
               active (reqs m ! j) \<and> \<not> ctxDone (reqs m ! j) \<longrightarrow> receiving cs j)) \<and>
         (\<forall>m'. mergedFundsReq_onComplete cs m result = Some m' \<longrightarrow>
            length (reqs m') = length (reqs m) \<and>
            (\<forall>j < length (reqs m).
               (active (reqs m ! j) \<and> \<not> ctxDone (reqs m ! j)
                  \<longrightarrow> reqs m' ! j = (reqs m ! j)\<lparr>promise := Some result\<rparr>) \<and>
               (\<not> active (reqs m ! j) \<longrightarrow> reqs m' ! j = reqs m ! j) \<and>
               (reqs m' ! j = reqs m ! j \<or> reqs m' ! j = (reqs m ! j)\<lparr>promise := Some result\<rparr>)))"
proof (intro conjI allI impI)
  fix mcid assume "out = Inr mcid"
  with assms have "create env ch (mergedFundsReq_sum m) = (ch', Inr mcid)
           \<or> addFunds env ch ci (mergedFundsReq_sum m) = (ch', Inr mcid)" by simp
  then show "\<exists>smsg. mpool ch' = mpool ch @ [smsg] \<and> SignedCid env smsg = mcid \<and>
               Value (sm_Message smsg) = sum_list (map amt (filter active (reqs m)))"
    using create_Inr addFunds_Inr unfolding mergedFundsReq_sum_eq by blast
next
  fix e assume "out = Inl e"
  with assms have "create env ch (mergedFundsReq_sum m) = (ch', Inl e)
           \<or> addFunds env ch ci (mergedFundsReq_sum m) = (ch', Inl e)" by simp
  then show "mpool ch' = mpool ch"
    using create_Inl addFunds_Inl by blast
next
  show "(\<exists>m'. mergedFundsReq_onComplete cs m result = Some m') \<longleftrightarrow>
            (\<forall>j < length (reqs m).
               active (reqs m ! j) \<and> \<not> ctxDone (reqs m ! j) \<longrightarrow> receiving cs j)"
    using onCompleteAll_returns [of cs 0 "reqs m" result]
    by (auto simp: mergedFundsReq_onComplete_def)
next
  fix m' assume c: "mergedFundsReq_onComplete cs m result = Some m'"
  then obtain rs' where rs': "onCompleteAll cs 0 (reqs m) result = Some rs'"
    and m': "m' = m\<lparr>reqs := rs'\<rparr>"
    by (auto simp: mergedFundsReq_onComplete_def)
  show "length (reqs m') = length (reqs m)"
    using onCompleteAll_length [OF rs'] m' by simp
  fix j assume j: "j < length (reqs m)"
  note n = onCompleteAll_nth [OF rs' j]
  {
    assume "active (reqs m ! j) \<and> \<not> ctxDone (reqs m ! j)"
    then show "reqs m' ! j = (reqs m ! j)\<lparr>promise := Some result\<rparr>"
      using n m' by simp
  next
    assume "\<not> active (reqs m ! j)"
    then show "reqs m' ! j = reqs m ! j"
      using n m' by simp
  next
    show "reqs m' ! j = reqs m ! j \<or> reqs m' ! j = (reqs m ! j)\<lparr>promise := Some result\<rparr>"
      using n m' by simp
  }
qed

text \<open>
  C2 (witness of the amended claim). Requests for 5, 7 (cancelled) and 3 on a channel
  without a record: one create message with value 8, and on completion the first and the
  third request hold the result.
\<close>

theorem merged_request_one_message_witness:
  "snd (create chain0 ch_new (mergedFundsReq_sum (newMergedFundsReq reqs573))) = Inr ''msg2'' \<and>
   map (\<lambda>sm. Value (sm_Message sm))
     (mpool (fst (create chain0 ch_new (mergedFundsReq_sum (newMergedFundsReq reqs573))))) = [8] \<and>
   map_option (\<lambda>m'. map promise (reqs m'))
     (mergedFundsReq_onComplete callers573 (newMergedFundsReq reqs573) res0)
     = Some [Some res0, None, Some res0]"
proof -
  let ?m = "newMergedFundsReq reqs573"
  let ?r = "create chain0 ch_new (mergedFundsReq_sum ?m)"
  have h: "?r = (fst ?r, Inr ''msg2'')"
    by (simp add: pay_defs chan_defs)
  have s: "sum_list (map amt (filter active (reqs ?m))) = 8"
    by (simp add: pay_defs chan_defs)
  have mp: "mpool ch_new = []" by (simp add: chan_defs)
  have sr: "snd ?r = Inr ''msg2''"
    by (subst h) simp
  have oc: "map_option (\<lambda>m'. map promise (reqs m'))
              (mergedFundsReq_onComplete callers573 ?m res0) = Some [Some res0, None, Some res0]"
    by (simp add: pay_defs chan_defs)
  from merged_request_one_message [OF disjI1 [OF h], of callers573 res0] obtain smsg
    where p: "mpool (fst ?r) = mpool ch_new @ [smsg]"
      and v: "Value (sm_Message smsg) = sum_list (map amt (filter active (reqs ?m)))"
    by blast
  have "map (\<lambda>sm. Value (sm_Message sm)) (mpool (fst ?r)) = [8]"
    by (simp add: p v s mp)
  then show ?thesis using sr oc by simp
qed

subsection \<open>Waiters\<close>

lemma find_replaceInfo:
  "find (\<lambda>x. ChannelID x = k) (replaceInfo ci xs) =
     (if k = ChannelID ci then Some ci else find (\<lambda>x. ChannelID x = k) xs)"
  by (induction xs) auto

lemma ByChannelID_put:
  "ByChannelID (putChannelInfo st ci) k =
     (if k = ChannelID ci then Inr ci else ByChannelID st k)"
  by (simp add: ByChannelID_def putChannelInfo_def find_replaceInfo)

lemma ByChannelID_id: "ByChannelID st k = Inr ci \<Longrightarrow> ChannelID ci = k"
  by (auto simp: ByChannelID_def find_Some_iff split: option.splits)

lemma ByChannelID_Remove:
  "ByChannelID (RemoveChannel st k) k = Inl (Errorf ''channel not found'')"
proof -
  have "find (\<lambda>ci. ChannelID ci = k) (filter (\<lambda>ci. ChannelID ci \<noteq> k) xs) = None"
    for xs :: "ChannelInfo list"
    by (induction xs) auto
  then show ?thesis by (simp add: ByChannelID_def RemoveChannel_def)
qed

lemma mutateChannelInfo_found:
  assumes "ByChannelID (store ch) k = Inr ci" and "ChannelID (f ci) = ChannelID ci"
  shows "ByChannelID (store (mutateChannelInfo ch k f)) k = Inr (f ci)"
  using assms ByChannelID_id [OF assms(1)]
  by (simp add: mutateChannelInfo_def ByChannelID_put)

lemma store_Lock [simp]: "store (Lock ch) = store ch"
  by (simp add: Lock_def)

lemma store_Unlock [simp]: "store (Unlock ch) = store ch"
  by (simp add: Unlock_def)

lemma msgWaitComplete_store:
  "msgResults (store (msgWaitComplete ch mcid err)) mcid = Some err"
  by (simp add: msgWaitComplete_def Let_def fireMsgComplete_def SaveMessageResult_def)

lemma msgWaitComplete_callbacks:
  "callbacks (msgWaitComplete ch mcid err) = callbacks ch @ publish mcid err 0 (msgListeners ch)"
  by (simp add: msgWaitComplete_def Let_def fireMsgComplete_def Lock_def Unlock_def)

lemma waitPaychCreateMsg_frame:
  "callbacks (fst (waitPaychCreateMsg env ch chid mcid)) = callbacks ch \<and>
   msgListeners (fst (waitPaychCreateMsg env ch chid mcid)) = msgListeners ch"
  by (simp add: waitPaychCreateMsg_def Let_def Lock_def Unlock_def mutateChannelInfo_def
      split: sum.split)

lemma waitAddFundsMsg_frame:
  "callbacks (fst (waitAddFundsMsg env ch chid mcid)) = callbacks ch \<and>
   msgListeners (fst (waitAddFundsMsg env ch chid mcid)) = msgListeners ch"
  by (simp add: waitAddFundsMsg_def Let_def Lock_def Unlock_def mutateChannelInfo_def
      split: sum.split)

text \<open>
  C4. The create message is confirmed and the channel has a record in the store. With
  exit code 0 and a return that decodes, the waiter reports no error and the record has
  the robust address as channel address, the former pending amount as amount, pending
  amount 0 and no create message. With a non-zero exit code the record is gone from the
  store and the waiter fails with the exit code; \<^verbatim>\<open>waitForPaychCreateMsg\<close> saves that error
  as the message result and hands it to the listeners of the message.
\<close>

theorem waitPaychCreateMsg_confirmed:
  assumes w: "StateWaitMsg env mcid 5 = Inr mwait"
    and c: "ByChannelID (store ch) chid = Inr ci"
  shows "(ExitCode (Receipt mwait) = 0 \<and>
          UnmarshalExecReturn env (Return (Receipt mwait)) = Inr ret \<longrightarrow>
            snd (waitPaychCreateMsg env ch chid mcid) = None \<and>
            ByChannelID (store (fst (waitPaychCreateMsg env ch chid mcid))) chid =
              Inr (ci\<lparr>Channel := Some (RobustAddress ret), Amount := PendingAmount ci,
                       PendingAmount := 0, CreateMsg := None\<rparr>)) \<and>
         (ExitCode (Receipt mwait) \<noteq> 0 \<longrightarrow>
            snd (waitPaychCreateMsg env ch chid mcid) =
              Some (ErrorfExit ''payment channel creation failed (exit code %d)''
                      (ExitCode (Receipt mwait))) \<and>
            ByChannelID (store (fst (waitPaychCreateMsg env ch chid mcid))) chid =
              Inl (Errorf ''channel not found'') \<and>
            msgResults (store (waitForPaychCreateMsg env ch chid mcid)) mcid =
              Some (Some (ErrorfExit ''payment channel creation failed (exit code %d)''
                      (ExitCode (Receipt mwait)))) \<and>
            callbacks (waitForPaychCreateMsg env ch chid mcid) =
              callbacks ch @
              publish mcid (Some (ErrorfExit ''payment channel creation failed (exit code %d)''
                      (ExitCode (Receipt mwait)))) 0 (msgListeners ch))"
proof (intro conjI impI)
  assume ok: "ExitCode (Receipt mwait) = 0 \<and>
          UnmarshalExecReturn env (Return (Receipt mwait)) = Inr ret"
  let ?f = "\<lambda>channelInfo. channelInfo\<lparr>Channel := Some (RobustAddress ret),
              Amount := PendingAmount channelInfo, PendingAmount := 0, CreateMsg := None\<rparr>"
  have r: "waitPaychCreateMsg env ch chid mcid =
             (Unlock (mutateChannelInfo (Lock ch) chid ?f), None)"
    using w ok by (simp add: waitPaychCreateMsg_def Let_def)
  show "snd (waitPaychCreateMsg env ch chid mcid) = None"
    by (simp add: r)
  have "ByChannelID (store (mutateChannelInfo (Lock ch) chid ?f)) chid = Inr (?f ci)"
    by (rule mutateChannelInfo_found) (use c in simp_all)
  then show "ByChannelID (store (fst (waitPaychCreateMsg env ch chid mcid))) chid =
              Inr (ci\<lparr>Channel := Some (RobustAddress ret), Amount := PendingAmount ci,
                       PendingAmount := 0, CreateMsg := None\<rparr>)"
    by (simp add: r)
next
  assume bad: "ExitCode (Receipt mwait) \<noteq> 0"
  let ?err = "ErrorfExit ''payment channel creation failed (exit code %d)''
                (ExitCode (Receipt mwait))"
  have r: "waitPaychCreateMsg env ch chid mcid =
             (Unlock ((Lock ch)\<lparr>store := RemoveChannel (store (Lock ch)) chid\<rparr>), Some ?err)"
    using w bad by (simp add: waitPaychCreateMsg_def Let_def)
  show "snd (waitPaychCreateMsg env ch chid mcid) = Some ?err"
    by (simp add: r)
  show "ByChannelID (store (fst (waitPaychCreateMsg env ch chid mcid))) chid =
          Inl (Errorf ''channel not found'')"
    by (simp add: r ByChannelID_Remove)
  have f: "waitForPaychCreateMsg env ch chid mcid =
             msgWaitComplete (fst (waitPaychCreateMsg env ch chid mcid)) mcid (Some ?err)"
    by (simp add: waitForPaychCreateMsg_def r)
  show "msgResults (store (waitForPaychCreateMsg env ch chid mcid)) mcid = Some (Some ?err)"
    unfolding f by (rule msgWaitComplete_store)
  show "callbacks (waitForPaychCreateMsg env ch chid mcid) =
          callbacks ch @ publish mcid (Some ?err) 0 (msgListeners ch)"
    unfolding f msgWaitComplete_callbacks using waitPaychCreateMsg_frame [of env ch chid mcid]
    by simp
qed

text \<open>
  C4 (witness): a channel created with 15, confirmed with exit code 0 and with exit
  code 7.
\<close>

theorem waitPaychCreateMsg_confirmed_witness:
  "ByChannelID (store (fst (waitPaychCreateMsg chain0 (ch_creating ''msg1'') 0 ''msg1''))) 0 =
     Inr \<lparr>ChannelID = 0, Channel = Some ''t2robust'', Control = ''alice'', Target = ''bob'',
          Amount = 15, PendingAmount = 0, CreateMsg = None, AddFundsMsg = None\<rparr> \<and>
   snd (waitPaychCreateMsg chain0 (ch_creating ''msg1'') 0 ''msg1'') = None \<and>
   channels (store (fst (waitPaychCreateMsg chain0 (ch_creating ''bad'') 0 ''bad''))) = [] \<and>
   callbacks (waitForPaychCreateMsg chain0 (ch_creating ''bad'') 0 ''bad'') =
     [(0, Some (ErrorfExit ''payment channel creation failed (exit code %d)'' 7))]"
proof -
  have w1: "StateWaitMsg chain0 ''msg1'' 5 = Inr \<lparr>Receipt = \<lparr>ExitCode = 0, Return = ''ret''\<rparr>\<rparr>"
    by (simp add: chain0_def)
  have c1: "ByChannelID (store (ch_creating ''msg1'')) 0 = Inr (ci_creating ''msg1'')"
    by (simp add: chan_defs ByChannelID_def)
  have d1: "UnmarshalExecReturn chain0 ''ret'' =
              Inr \<lparr>IDAddress = ''t0100'', RobustAddress = ''t2robust''\<rparr>"
    by (simp add: chain0_def)
  have w2: "StateWaitMsg chain0 ''bad'' 5 = Inr \<lparr>Receipt = \<lparr>ExitCode = 7, Return = ''ret''\<rparr>\<rparr>"
    by (simp add: chain0_def)
  have c2: "ByChannelID (store (ch_creating ''bad'')) 0 = Inr (ci_creating ''bad'')"
    by (simp add: chan_defs ByChannelID_def)
  have r2: "channels (store (fst (waitPaychCreateMsg chain0 (ch_creating ''bad'') 0 ''bad''))) = []"
    by (simp add: pay_defs chan_defs)
  show ?thesis
    using waitPaychCreateMsg_confirmed [OF w1 c1,
        of "\<lparr>IDAddress = ''t0100'', RobustAddress = ''t2robust''\<rparr>"]
      waitPaychCreateMsg_confirmed [OF w2 c2] d1 r2
    by (simp add: ci_creating_def ch_creating_def ch_new_def)
qed


text \<open>
  C5. The add-funds message is confirmed and the channel has a record in the store. With
  exit code 0 the waiter reports no error and the record has the pending amount added to
  the amount, pending amount 0 and no add-funds message. With a non-zero exit code the
  pending amount is 0, the add-funds message is cleared, the amount is unchanged, and the
  waiter fails with the exit code; \<^verbatim>\<open>waitForAddFundsMsg\<close> saves that error as the message
  result and hands it to the listeners of the message.
\<close>

theorem waitAddFundsMsg_confirmed:
  assumes w: "StateWaitMsg env mcid 5 = Inr mwait"
    and c: "ByChannelID (store ch) chid = Inr ci"
  shows "(ExitCode (Receipt mwait) = 0 \<longrightarrow>
            snd (waitAddFundsMsg env ch chid mcid) = None \<and>
            ByChannelID (store (fst (waitAddFundsMsg env ch chid mcid))) chid =
              Inr (ci\<lparr>Amount := Amount ci + PendingAmount ci, PendingAmount := 0,
                       AddFundsMsg := None\<rparr>)) \<and>
         (ExitCode (Receipt mwait) \<noteq> 0 \<longrightarrow>
            snd (waitAddFundsMsg env ch chid mcid) =
              Some (ErrorfExit ''voucher channel creation failed: adding funds (exit code %d)''
                      (ExitCode (Receipt mwait))) \<and>
            ByChannelID (store (fst (waitAddFundsMsg env ch chid mcid))) chid =
              Inr (ci\<lparr>PendingAmount := 0, AddFundsMsg := None\<rparr>) \<and>
            msgResults (store (waitForAddFundsMsg env ch chid mcid)) mcid =
              Some (Some (ErrorfExit
                      ''voucher channel creation failed: adding funds (exit code %d)''
                      (ExitCode (Receipt mwait)))) \<and>
            callbacks (waitForAddFundsMsg env ch chid mcid) =
              callbacks ch @
              publish mcid (Some (ErrorfExit
                      ''voucher channel creation failed: adding funds (exit code %d)''
                      (ExitCode (Receipt mwait)))) 0 (msgListeners ch))"
proof (intro conjI impI)
  assume ok: "ExitCode (Receipt mwait) = 0"
  let ?f = "\<lambda>channelInfo. channelInfo\<lparr>Amount := Amount channelInfo + PendingAmount channelInfo,
              PendingAmount := 0, AddFundsMsg := None\<rparr>"
  have r: "waitAddFundsMsg env ch chid mcid =
             (Unlock (mutateChannelInfo (Lock ch) chid ?f), None)"
    using w ok by (simp add: waitAddFundsMsg_def Let_def)
  show "snd (waitAddFundsMsg env ch chid mcid) = None"
    by (simp add: r)
  have "ByChannelID (store (mutateChannelInfo (Lock ch) chid ?f)) chid = Inr (?f ci)"
    by (rule mutateChannelInfo_found) (use c in simp_all)
  then show "ByChannelID (store (fst (waitAddFundsMsg env ch chid mcid))) chid =
              Inr (ci\<lparr>Amount := Amount ci + PendingAmount ci, PendingAmount := 0,
                       AddFundsMsg := None\<rparr>)"
    by (simp add: r)
next
  assume bad: "ExitCode (Receipt mwait) \<noteq> 0"
  let ?err = "ErrorfExit ''voucher channel creation failed: adding funds (exit code %d)''
                (ExitCode (Receipt mwait))"
  let ?f = "\<lambda>channelInfo. channelInfo\<lparr>PendingAmount := 0, AddFundsMsg := None\<rparr>"
  have r: "waitAddFundsMsg env ch chid mcid =
             (Unlock (mutateChannelInfo (Lock ch) chid ?f), Some ?err)"
    using w bad by (simp add: waitAddFundsMsg_def Let_def)
  show "snd (waitAddFundsMsg env ch chid mcid) = Some ?err"
    by (simp add: r)
  have "ByChannelID (store (mutateChannelInfo (Lock ch) chid ?f)) chid = Inr (?f ci)"
    by (rule mutateChannelInfo_found) (use c in simp_all)
  then show "ByChannelID (store (fst (waitAddFundsMsg env ch chid mcid))) chid =
          Inr (ci\<lparr>PendingAmount := 0, AddFundsMsg := None\<rparr>)"
    by (simp add: r)
  have f: "waitForAddFundsMsg env ch chid mcid =
             msgWaitComplete (fst (waitAddFundsMsg env ch chid mcid)) mcid (Some ?err)"
    by (simp add: waitForAddFundsMsg_def r)
  show "msgResults (store (waitForAddFundsMsg env ch chid mcid)) mcid = Some (Some ?err)"
    unfolding f by (rule msgWaitComplete_store)
  show "callbacks (waitForAddFundsMsg env ch chid mcid) =
          callbacks ch @ publish mcid (Some ?err) 0 (msgListeners ch)"
    unfolding f msgWaitComplete_callbacks using waitAddFundsMsg_frame [of env ch chid mcid]
    by simp
qed

text \<open>
  C5 (witness): a channel with amount 15 and 10 pending, confirmed with exit code 0 and
  with exit code 7.
\<close>

theorem waitAddFundsMsg_confirmed_witness:
  "ByChannelID (store (fst (waitAddFundsMsg chain0 (ch_adding ''msg1'') 0 ''msg1''))) 0 =
     Inr \<lparr>ChannelID = 0, Channel = Some ''t2robust'', Control = ''alice'', Target = ''bob'',
          Amount = 25, PendingAmount = 0, CreateMsg = None, AddFundsMsg = None\<rparr> \<and>
   snd (waitAddFundsMsg chain0 (ch_adding ''msg1'') 0 ''msg1'') = None \<and>
   ByChannelID (store (fst (waitAddFundsMsg chain0 (ch_adding ''bad'') 0 ''bad''))) 0 =
     Inr \<lparr>ChannelID = 0, Channel = Some ''t2robust'', Control = ''alice'', Target = ''bob'',
          Amount = 15, PendingAmount = 0, CreateMsg = None, AddFundsMsg = None\<rparr> \<and>
   callbacks (waitForAddFundsMsg chain0 (ch_adding ''bad'') 0 ''bad'') =
     [(0, Some (ErrorfExit ''voucher channel creation failed: adding funds (exit code %d)'' 7))]"
proof -
  have w1: "StateWaitMsg chain0 ''msg1'' 5 = Inr \<lparr>Receipt = \<lparr>ExitCode = 0, Return = ''ret''\<rparr>\<rparr>"
    by (simp add: chain0_def)
  have c1: "ByChannelID (store (ch_adding ''msg1'')) 0 = Inr (ci_adding ''msg1'')"
    by (simp add: chan_defs ByChannelID_def)
  have w2: "StateWaitMsg chain0 ''bad'' 5 = Inr \<lparr>Receipt = \<lparr>ExitCode = 7, Return = ''ret''\<rparr>\<rparr>"
    by (simp add: chain0_def)
  have c2: "ByChannelID (store (ch_adding ''bad'')) 0 = Inr (ci_adding ''bad'')"
    by (simp add: chan_defs ByChannelID_def)
  show ?thesis
    using waitAddFundsMsg_confirmed [OF w1 c1] waitAddFundsMsg_confirmed [OF w2 c2]
    by (simp add: ci_adding_def ch_adding_def ch_new_def)
qed

subsection \<open>Locks\<close>

text \<open>
  C9 (counterexample). The claim has the global read lock taken first and the
  per-channel lock second. \<^verbatim>\<open>multiLock.Lock\<close> takes the per-channel lock first.
\<close>

theorem multiLock_order_counterexample:
  "multiLock_Lock [] = [ChanLock, GlobalRLock] \<and>
   multiLock_Lock [] \<noteq> [GlobalRLock, ChanLock] \<and>
   multiLock_Unlock [ChanLock, GlobalRLock] = [ChanLock, GlobalRLock, GlobalRUnlock, ChanUnlock]"
  by (simp add: multiLock_Lock_def multiLock_Unlock_def)

lemma lk_mutateChannelInfo [simp]: "lk (mutateChannelInfo ch chid f) = lk ch"
  by (simp add: mutateChannelInfo_def split: sum.split)

text \<open>
  C9 (amended). \<^verbatim>\<open>Lock\<close> takes the per-channel lock and then the read side of the global
  lock; \<^verbatim>\<open>Unlock\<close> releases the read side of the global lock and then the per-channel
  lock. \<^verbatim>\<open>msgWaitComplete\<close> does exactly this pair around its work, the two waiters do it
  once or not at all, and none of them touches the write side of the global lock.
\<close>

theorem multiLock_order:
  "multiLock_Lock tr = tr @ [ChanLock, GlobalRLock] \<and>
   multiLock_Unlock tr = tr @ [GlobalRUnlock, ChanUnlock] \<and>
   lk (msgWaitComplete ch mcid err) =
     lk ch @ [ChanLock, GlobalRLock, GlobalRUnlock, ChanUnlock] \<and>
   (lk (fst (waitPaychCreateMsg env ch chid mcid)) = lk ch \<or>
    lk (fst (waitPaychCreateMsg env ch chid mcid)) =
      lk ch @ [ChanLock, GlobalRLock, GlobalRUnlock, ChanUnlock]) \<and>
   (lk (fst (waitAddFundsMsg env ch chid mcid)) = lk ch \<or>
    lk (fst (waitAddFundsMsg env ch chid mcid)) =
      lk ch @ [ChanLock, GlobalRLock, GlobalRUnlock, ChanUnlock])"
  by (simp add: multiLock_Lock_def multiLock_Unlock_def msgWaitComplete_def
      fireMsgComplete_def waitPaychCreateMsg_def waitAddFundsMsg_def Lock_def Unlock_def Let_def
      split: sum.split)

subsection \<open>The queue after a completed message\<close>

text \<open>
  C1 (the code at the failing input). A channel waits for its add-funds message with one
  more funds request queued. The waiter confirms the message: the result is saved and the
  listener is called, and that is all; the queued request is still in the queue, no
  message has been pushed and no waiter started, although processing the queue at this
  point would submit the add-funds message for the queued 4.
\<close>

theorem msgWaitComplete_leaves_queue:
  "msgResults (store (waitForAddFundsMsg chain0 (ch_adding ''msg1'') 0 ''msg1'')) ''msg1''
     = Some None \<and>
   callbacks (waitForAddFundsMsg chain0 (ch_adding ''msg1'') 0 ''msg1'') = [(0, None)] \<and>
   fundsReqQueue (waitForAddFundsMsg chain0 (ch_adding ''msg1'') 0 ''msg1'') = [newFundsReq 4] \<and>
   mpool (waitForAddFundsMsg chain0 (ch_adding ''msg1'') 0 ''msg1'') = [] \<and>
   waiters (waitForAddFundsMsg chain0 (ch_adding ''msg1'') 0 ''msg1'') = [] \<and>
   map (\<lambda>sm. Value (sm_Message sm))
     (mpool (fst (processQueue chain0 (waitForAddFundsMsg chain0 (ch_adding ''msg1'') 0 ''msg1''))))
     = [4]"
  by (simp add: pay_defs chan_defs)

end
